theory Spec2Isabelle
  imports Main "HOL-Library.AList"
begin

section \<open>Strings and paths\<close>

text \<open>
  Python strings are modelled as \<open>string\<close>: a character of the model is a code point below
  256 (Latin-1). On these \<open>str.lower\<close> works character by character: the capital letters
  are \<open>A\<close> to \<open>Z\<close> (65 to 90), \<open>A\<close> grave to \<open>O\<close> diaeresis (192 to 214) and \<open>O\<close> stroke to
  thorn (216 to 222), the small letter of each lies 32 above it, and every other code
  point below 256 is kept (the multiplication sign 215 and the sharp s 223 among them).
\<close>

definition lower_char :: "char \<Rightarrow> char" where
  "lower_char c =
     (if (65 \<le> (of_char c :: nat) \<and> (of_char c :: nat) \<le> 90)
         \<or> (192 \<le> (of_char c :: nat) \<and> (of_char c :: nat) \<le> 214)
         \<or> (216 \<le> (of_char c :: nat) \<and> (of_char c :: nat) \<le> 222)
      then char_of ((of_char c :: nat) + 32)
      else c)"

definition lower :: "string \<Rightarrow> string" where
  "lower s = map lower_char s"

text \<open>\<open>str(counter)\<close> inside the f-string of \<open>_handle_duplicate\<close>: decimal digits, no leading zero.\<close>

definition digit_char :: "nat \<Rightarrow> char" where
  "digit_char d = ''0123456789'' ! d"

fun str_nat :: "nat \<Rightarrow> string" where
  "str_nat n = (if n < 10 then [digit_char n] else str_nat (n div 10) @ [digit_char (n mod 10)])"

declare str_nat.simps [simp del]

text \<open>\<open>strftime("%Y-%m")\<close> on a (year, month) pair: four and two digits, zero padded.\<close>

definition zero_pad :: "nat \<Rightarrow> string \<Rightarrow> string" where
  "zero_pad k s = replicate (k - length s) (CHR ''0'') @ s"

definition strftime_Ym :: "nat \<times> nat \<Rightarrow> string" where
  "strftime_Ym ym = zero_pad 4 (str_nat (fst ym)) @ ''-'' @ zero_pad 2 (str_nat (snd ym))"

text \<open>
  \<open>posixpath\<close>: \<open>rfind_split p\<close> is \<open>(p[:i], p[i:])\<close> for \<open>i = p.rfind('/') + 1\<close>;
  \<open>path_split\<close>, \<open>dirname\<close>, \<open>basename\<close>, \<open>join\<close> and \<open>splitext\<close> follow the library's code.
\<close>

definition rfind_split :: "string \<Rightarrow> string \<times> string" where
  "rfind_split p =
     (rev (dropWhile (\<lambda>c. c \<noteq> CHR ''/'') (rev p)), rev (takeWhile (\<lambda>c. c \<noteq> CHR ''/'') (rev p)))"

definition rstrip_sep :: "string \<Rightarrow> string" where
  "rstrip_sep s = rev (dropWhile (\<lambda>c. c = CHR ''/'') (rev s))"

definition path_split :: "string \<Rightarrow> string \<times> string" where
  "path_split p =
     (let head = fst (rfind_split p); tail = snd (rfind_split p)
      in (if head \<noteq> [] \<and> head \<noteq> replicate (length head) (CHR ''/'') then rstrip_sep head else head,
          tail))"

definition dirname :: "string \<Rightarrow> string" where
  "dirname p = fst (path_split p)"

definition basename :: "string \<Rightarrow> string" where
  "basename p = snd (path_split p)"

definition join :: "string \<Rightarrow> string \<Rightarrow> string" where
  "join a b =
     (if b \<noteq> [] \<and> hd b = CHR ''/'' then b
      else if a = [] \<or> last a = CHR ''/'' then a @ b
      else a @ ''/'' @ b)"

text \<open>
  \<open>os.path.splitext\<close>: the extension starts at the last dot of the last component, unless
  that component has only dots before it (\<open>.bashrc\<close> has no extension).
\<close>

definition splitext :: "string \<Rightarrow> string \<times> string" where
  "splitext p =
     (let name = snd (rfind_split p);
          stem = rev (tl (dropWhile (\<lambda>c. c \<noteq> CHR ''.'') (rev name)));
          ext = CHR ''.'' # rev (takeWhile (\<lambda>c. c \<noteq> CHR ''.'') (rev name))
      in if CHR ''.'' \<in> set name \<and> (\<exists>c \<in> set stem. c \<noteq> CHR ''.'')
         then (fst (rfind_split p) @ stem, ext)
         else (p, []))"

section \<open>The file system\<close>

text \<open>
  The directory tree is an association list from path strings to nodes; its order is the
  order in which \<open>os.listdir\<close> reports entries. A regular file carries its bytes and the
  local (year, month) of its modification time, the only part of the time stamp the
  program reads. \<open>denied\<close> lists the paths on which the operating system refuses access
  (permission errors). Paths are compared as strings, so the model is meant for the
  absolute, normalised paths that \<open>os.path.abspath\<close> produces.
\<close>

datatype node = File (content: string) (mtime: "nat \<times> nat") | Dir

record world =
  tree :: "(string \<times> node) list"
  denied :: "string list"
  now_iso :: string
  now_ym :: "nat \<times> nat"

datatype exn =
    FileExistsError
  | FileNotFoundError
  | NotADirectoryError
  | IsADirectoryError
  | PermissionError
  | DirectoryNotEmpty
  | InvalidArgument
  | ShutilError

text \<open>
  Every constructor of \<open>exn\<close> is an \<open>OSError\<close> in Python (\<open>shutil.Error\<close> and \<open>IOError\<close>
  included), so an \<open>except OSError\<close> clause catches all of them.
\<close>

definition node_at :: "world \<Rightarrow> string \<Rightarrow> node option" where
  "node_at w p = map_of (tree w) p"

definition path_exists :: "world \<Rightarrow> string \<Rightarrow> bool" where
  "path_exists w p = (node_at w p \<noteq> None)"

definition isdir :: "world \<Rightarrow> string \<Rightarrow> bool" where
  "isdir w p = (node_at w p = Some Dir)"

definition dir_prefix :: "string \<Rightarrow> string" where
  "dir_prefix d = (if d = [] \<or> last d = CHR ''/'' then d else d @ ''/'')"

definition child_names :: "string \<Rightarrow> string list \<Rightarrow> string list" where
  "child_names d ps =
     map (drop (length (dir_prefix d)))
       (filter (\<lambda>p. take (length (dir_prefix d)) p = dir_prefix d
                    \<and> drop (length (dir_prefix d)) p \<noteq> []
                    \<and> CHR ''/'' \<notin> set (drop (length (dir_prefix d)) p)) ps)"

definition listdir :: "world \<Rightarrow> string \<Rightarrow> exn + string list" where
  "listdir w d =
     (if \<not> isdir w d then Inl (if path_exists w d then NotADirectoryError else FileNotFoundError)
      else if d \<in> set (denied w) then Inl PermissionError
      else Inr (remdups (child_names d (map fst (tree w)))))"

definition os_remove :: "world \<Rightarrow> string \<Rightarrow> exn + world" where
  "os_remove w p =
     (case node_at w p of
        None \<Rightarrow> Inl FileNotFoundError
      | Some Dir \<Rightarrow> Inl IsADirectoryError
      | Some (File c m) \<Rightarrow>
          if p \<in> set (denied w) then Inl PermissionError
          else Inr (w\<lparr>tree := AList.delete p (tree w)\<rparr>))"

definition os_mkdir :: "world \<Rightarrow> string \<Rightarrow> exn + world" where
  "os_mkdir w p =
     (if path_exists w p then Inl FileExistsError
      else if \<not> isdir w (dirname p) then Inl FileNotFoundError
      else if p \<in> set (denied w) then Inl PermissionError
      else Inr (w\<lparr>tree := AList.update p Dir (tree w)\<rparr>))"

text \<open>
  \<open>os.makedirs\<close>, following the library: the parent is created first when it is missing, a
  \<open>FileExistsError\<close> from that recursive call is swallowed, and a failing \<open>mkdir\<close> is
  forgiven only with \<open>exist_ok\<close> on an existing directory. The result is the exception
  raised, if any, with the world as it is then.
\<close>

definition md_head :: "string \<Rightarrow> string" where
  "md_head name = (if snd (path_split name) = [] then fst (path_split (fst (path_split name)))
                   else fst (path_split name))"

definition md_tail :: "string \<Rightarrow> string" where
  "md_tail name = (if snd (path_split name) = [] then snd (path_split (fst (path_split name)))
                   else snd (path_split name))"

lemma length_rfind_split: "length (fst (rfind_split p)) + length (snd (rfind_split p)) = length p"
proof -
  have "length (dropWhile (\<lambda>c. c \<noteq> CHR ''/'') (rev p))
        + length (takeWhile (\<lambda>c. c \<noteq> CHR ''/'') (rev p)) = length (rev p)"
    by (metis add.commute length_append takeWhile_dropWhile_id)
  then show ?thesis by (simp add: rfind_split_def)
qed

lemma length_rstrip_sep: "length (rstrip_sep s) \<le> length s"
  by (simp add: rstrip_sep_def length_dropWhile_le order.trans [OF length_dropWhile_le])

lemma length_path_split_fst: "length (fst (path_split p)) + length (snd (path_split p)) \<le> length p"
  using length_rfind_split [of p] length_rstrip_sep [of "fst (rfind_split p)"]
  by (simp add: path_split_def Let_def)

lemma md_head_shorter: "md_tail name \<noteq> [] \<Longrightarrow> length (md_head name) < length name"
proof -
  assume t: "md_tail name \<noteq> []"
  show ?thesis
  proof (cases "snd (path_split name) = []")
    case True
    then have "length (md_head name) + length (md_tail name) \<le> length (fst (path_split name))"
      using length_path_split_fst [of "fst (path_split name)"] by (simp add: md_head_def md_tail_def)
    moreover have "length (fst (path_split name)) \<le> length name"
      using length_path_split_fst [of name] by simp
    ultimately show ?thesis using t by (cases "md_tail name") auto
  next
    case False
    then have "length (md_head name) + length (md_tail name) \<le> length name"
      using length_path_split_fst [of name] by (simp add: md_head_def md_tail_def)
    then show ?thesis using t by (cases "md_tail name") auto
  qed
qed

function makedirs :: "world \<Rightarrow> string \<Rightarrow> bool \<Rightarrow> exn option \<times> world" where
  "makedirs w name exist_ok =
     (if md_head name \<noteq> [] \<and> md_tail name \<noteq> [] \<and> \<not> path_exists w (md_head name)
      then (case makedirs w (md_head name) exist_ok of
              (Some e, w1) \<Rightarrow>
                if e = FileExistsError
                then (if md_tail name = ''.'' then (None, w1)
                      else (case os_mkdir w1 name of
                              Inr w2 \<Rightarrow> (None, w2)
                            | Inl e' \<Rightarrow> if \<not> exist_ok \<or> \<not> isdir w1 name then (Some e', w1)
                                        else (None, w1)))
                else (Some e, w1)
            | (None, w1) \<Rightarrow>
                if md_tail name = ''.'' then (None, w1)
                else (case os_mkdir w1 name of
                        Inr w2 \<Rightarrow> (None, w2)
                      | Inl e' \<Rightarrow> if \<not> exist_ok \<or> \<not> isdir w1 name then (Some e', w1)
                                  else (None, w1)))
      else (case os_mkdir w name of
              Inr w2 \<Rightarrow> (None, w2)
            | Inl e' \<Rightarrow> if \<not> exist_ok \<or> \<not> isdir w name then (Some e', w) else (None, w)))"
  by pat_completeness auto
termination
  by (relation "measure (\<lambda>(w, name, exist_ok). length name)") (auto simp: md_head_shorter)

declare makedirs.simps [simp del]

text \<open>
  \<open>os.rename\<close> on one tree: a regular file replaces a regular file at the target; a
  directory takes its whole subtree with it. The parent of the target must be a directory.
\<close>

definition inside :: "string \<Rightarrow> string \<Rightarrow> bool" where
  "inside d p = (take (length d + 1) p = d @ ''/'')"

definition rekey :: "string \<Rightarrow> string \<Rightarrow> (string \<times> node) list \<Rightarrow> (string \<times> node) list" where
  "rekey src dst t =
     map (\<lambda>(p, n). if p = src then (dst, n)
                   else if inside src p then (dst @ drop (length src) p, n)
                   else (p, n)) t"

definition os_rename :: "world \<Rightarrow> string \<Rightarrow> string \<Rightarrow> exn + world" where
  "os_rename w src dst =
     (case node_at w src of
        None \<Rightarrow> Inl FileNotFoundError
      | Some n \<Rightarrow>
          if src \<in> set (denied w) \<or> dst \<in> set (denied w) then Inl PermissionError
          else if \<not> isdir w (dirname dst) then Inl FileNotFoundError
          else (case n of
                  File c m \<Rightarrow>
                    if isdir w dst then Inl IsADirectoryError
                    else Inr (w\<lparr>tree := AList.update dst n (AList.delete src (tree w))\<rparr>)
                | Dir \<Rightarrow>
                    if src = dst then Inr w
                    else if inside src dst then Inl InvalidArgument
                    else (case node_at w dst of
                            Some (File c m) \<Rightarrow> Inl NotADirectoryError
                          | Some Dir \<Rightarrow>
                              if \<exists>p \<in> set (map fst (tree w)). inside dst p
                              then Inl DirectoryNotEmpty
                              else Inr (w\<lparr>tree := rekey src dst (AList.delete dst (tree w))\<rparr>)
                          | None \<Rightarrow> Inr (w\<lparr>tree := rekey src dst (tree w)\<rparr>))))"

text \<open>
  \<open>shutil.move\<close>: a target that is a directory receives the source under its own name,
  unless that name is taken there. The copy-and-delete fallback is for moves between
  devices, which a single tree does not have: a failing rename is a failing move.
\<close>

definition shutil_basename :: "string \<Rightarrow> string" where
  "shutil_basename p = basename (rstrip_sep p)"

definition shutil_move :: "world \<Rightarrow> string \<Rightarrow> string \<Rightarrow> exn + world" where
  "shutil_move w src dst =
     (if isdir w dst then
        (if src = dst then os_rename w src dst
         else if path_exists w (join dst (shutil_basename src)) then Inl ShutilError
         else os_rename w src (join dst (shutil_basename src)))
      else os_rename w src dst)"

definition read_file :: "world \<Rightarrow> string \<Rightarrow> exn + string" where
  "read_file w p =
     (case node_at w p of
        None \<Rightarrow> Inl FileNotFoundError
      | Some Dir \<Rightarrow> Inl IsADirectoryError
      | Some (File c m) \<Rightarrow> if p \<in> set (denied w) then Inl PermissionError else Inr c)"

definition write_file :: "world \<Rightarrow> string \<Rightarrow> string \<Rightarrow> exn + world" where
  "write_file w p c =
     (if isdir w p then Inl IsADirectoryError
      else if p \<in> set (denied w) then Inl PermissionError
      else if \<not> isdir w (dirname p) then Inl FileNotFoundError
      else Inr (w\<lparr>tree := AList.update p (File c (now_ym w)) (tree w)\<rparr>))"

text \<open>
  \<open>os.path.getmtime\<close>. The program asks only for paths it has just found not to be
  directories; for a directory the model answers with the current month.
\<close>

definition getmtime :: "world \<Rightarrow> string \<Rightarrow> exn + nat \<times> nat" where
  "getmtime w p =
     (case node_at w p of
        None \<Rightarrow> Inl FileNotFoundError
      | Some Dir \<Rightarrow> Inr (now_ym w)
      | Some (File c m) \<Rightarrow> Inr m)"

section \<open>Configuration\<close>

text \<open>
  \<open>Config.categories\<close> is a Python dictionary from category names to lists of extensions;
  the association list keeps its iteration order.
\<close>

record config =
  config_path :: "string option"
  categories :: "(string \<times> string list) list"

definition DEFAULT_CATEGORIES :: "(string \<times> string list) list" where
  "DEFAULT_CATEGORIES =
     [(''Videos'', [''.mp4'', ''.mkv'', ''.avi'', ''.mov'', ''.wmv'', ''.flv'', ''.webm'']),
      (''Pictures'', [''.jpg'', ''.jpeg'', ''.png'', ''.gif'', ''.bmp'', ''.svg'', ''.ico'', ''.tiff'', ''.webp'']),
      (''Music'', [''.mp3'', ''.wav'', ''.flac'', ''.aac'', ''.ogg'', ''.m4a'', ''.wma'']),
      (''Documents'', [''.pdf'', ''.docx'', ''.txt'', ''.pptx'', ''.xlsx'', ''.doc'', ''.xls'', ''.ppt'', ''.odt'', ''.rtf'']),
      (''Archives'', [''.zip'', ''.rar'', ''.7z'', ''.tar'', ''.gz'', ''.bz2'', ''.xz'']),
      (''Code'', [''.py'', ''.js'', ''.java'', ''.cpp'', ''.c'', ''.h'', ''.cs'', ''.php'', ''.rb'', ''.go'', ''.rs'', ''.html'', ''.css'']),
      (''Executables'', [''.exe'', ''.msi'', ''.app'', ''.deb'', ''.rpm'', ''.dmg'']),
      (''Spreadsheets'', [''.csv'', ''.xlsx'', ''.xls'', ''.ods''])]"

definition default_config :: config where
  "default_config = \<lparr>config_path = None, categories = DEFAULT_CATEGORIES\<rparr>"

definition get_categories :: "config \<Rightarrow> (string \<times> string list) list" where
  "get_categories cfg = categories cfg"

definition add_category :: "config \<Rightarrow> string \<Rightarrow> string list \<Rightarrow> config" where
  "add_category cfg category_name extensions =
     cfg\<lparr>categories := AList.update category_name extensions (categories cfg)\<rparr>"

definition remove_category :: "config \<Rightarrow> string \<Rightarrow> config" where
  "remove_category cfg category_name =
     cfg\<lparr>categories := AList.delete category_name (categories cfg)\<rparr>"

text \<open>The loop of \<open>get_category_for_extension\<close> over \<open>categories.items()\<close>.\<close>

fun first_category :: "string \<Rightarrow> (string \<times> string list) list \<Rightarrow> string option" where
  "first_category extension [] = None"
| "first_category extension ((category, extensions) # rest) =
     (if extension \<in> set extensions then Some category else first_category extension rest)"

definition get_category_for_extension :: "config \<Rightarrow> string \<Rightarrow> string option" where
  "get_category_for_extension cfg extension = first_category (lower extension) (categories cfg)"

section \<open>The sorter\<close>

record operation =
  timestamp :: string
  source :: string
  destination :: string
  filename :: string
  category :: string

record stats =
  moved :: nat
  skipped :: nat
  errors :: nat

record sorter =
  source_dir :: string
  config :: config
  create_subdirs :: bool
  history_file :: string
  history :: "operation list"

text \<open>
  \<open>save_history\<close> overwrites the history file with the serialised log; an \<open>IOError\<close> is
  caught and only reported. \<open>json.dump\<close> is library code: the serialiser is the parameter
  \<open>dump\<close>. Printing is not modelled, and with it the \<open>verbose\<close> flags.
\<close>

definition save_history :: "(operation list \<Rightarrow> string) \<Rightarrow> sorter \<Rightarrow> world \<Rightarrow> world" where
  "save_history dump s w =
     (case write_file w (history_file s) (dump (history s)) of
        Inl e \<Rightarrow> w
      | Inr w' \<Rightarrow> w')"

fun ensure_loop :: "string \<Rightarrow> string list \<Rightarrow> world \<Rightarrow> exn option \<times> world" where
  "ensure_loop src [] w = (None, w)"
| "ensure_loop src (cat # rest) w =
     (if \<not> path_exists w (join src cat)
      then (case makedirs w (join src cat) False of
              (Some e, w') \<Rightarrow> (Some e, w')
            | (None, w') \<Rightarrow> ensure_loop src rest w')
      else ensure_loop src rest w)"

definition ensure_directories_exist :: "sorter \<Rightarrow> world \<Rightarrow> exn option \<times> world" where
  "ensure_directories_exist s w =
     (if create_subdirs s
      then ensure_loop (source_dir s) (map fst (get_categories (config s))) w
      else (None, w))"

definition get_file_hash :: "(string \<Rightarrow> string) \<Rightarrow> world \<Rightarrow> string \<Rightarrow> string" where
  "get_file_hash md5 w filepath =
     (case read_file w filepath of
        Inl e \<Rightarrow> []
      | Inr c \<Rightarrow> md5 c)"

text \<open>
  The \<open>while\<close> loop of the rename policy. It ends because the tree is finite and the
  candidates are pairwise different.
\<close>

definition candidate :: "string \<Rightarrow> string \<Rightarrow> nat \<Rightarrow> string" where
  "candidate base ext counter = base @ ''_'' @ str_nat counter @ ext"

definition digit_val :: "char \<Rightarrow> nat" where
  "digit_val c = (case map_of (zip ''0123456789'' [0..<10]) c of Some d \<Rightarrow> d | None \<Rightarrow> 0)"

lemma digit_val_char: "d < 10 \<Longrightarrow> digit_val (digit_char d) = d"
proof -
  assume "d < 10"
  then have "d \<in> {0,1,2,3,4,5,6,7,8,9}" by auto
  then show ?thesis
    by (auto simp: digit_val_def digit_char_def upt_rec)
qed

lemma str_nat_decode: "foldl (\<lambda>a c. 10 * a + digit_val c) 0 (str_nat n) = n"
proof (induction n rule: str_nat.induct)
  case (1 n)
  show ?case
  proof (cases "n < 10")
    case True
    then show ?thesis by (subst str_nat.simps) (simp add: digit_val_char)
  next
    case False
    then show ?thesis using 1 by (subst str_nat.simps) (simp add: digit_val_char)
  qed
qed

lemma str_nat_inj: "str_nat n = str_nat m \<Longrightarrow> n = m"
  by (metis str_nat_decode)

lemma candidate_inj: "candidate base ext j = candidate base ext k \<Longrightarrow> j = k"
  by (simp add: candidate_def str_nat_inj)

lemma filter_length_less:
  assumes "x \<in> set xs" "Q x" "\<not> P x" "\<And>y. P y \<Longrightarrow> Q y"
  shows "length (filter P xs) < length (filter Q xs)"
proof -
  have "filter P xs = filter P (filter Q xs)"
    using assms(4) by (auto intro: filter_cong)
  moreover have "x \<in> set (filter Q xs)" using assms by simp
  ultimately show ?thesis using assms(3) by (metis length_filter_less)
qed

lemma path_exists_key: "path_exists w p \<Longrightarrow> p \<in> set (map fst (tree w))"
  by (simp add: path_exists_def node_at_def map_of_eq_None_iff)

definition later_candidates :: "world \<Rightarrow> string \<Rightarrow> string \<Rightarrow> nat \<Rightarrow> nat" where
  "later_candidates w base ext counter =
     length (filter (\<lambda>p. \<exists>k\<ge>counter. p = candidate base ext k) (map fst (tree w)))"

lemma later_candidates_less:
  assumes "path_exists w (candidate base ext counter)"
  shows "later_candidates w base ext (Suc counter) < later_candidates w base ext counter"
  unfolding later_candidates_def
proof (rule filter_length_less [where x = "candidate base ext counter"])
  show "candidate base ext counter \<in> set (map fst (tree w))" using assms by (rule path_exists_key)
  show "\<exists>k\<ge>counter. candidate base ext counter = candidate base ext k" by blast
  show "\<not> (\<exists>k\<ge>Suc counter. candidate base ext counter = candidate base ext k)"
    using candidate_inj by fastforce
  show "\<And>y. \<exists>k\<ge>Suc counter. y = candidate base ext k \<Longrightarrow> \<exists>k\<ge>counter. y = candidate base ext k"
    using Suc_leD by blast
qed

lemma filter_length_le:
  "(\<And>y. P y \<Longrightarrow> Q y) \<Longrightarrow> length (filter P xs) \<le> length (filter Q xs)"
  by (induction xs) auto

lemma later_candidates_mono:
  "later_candidates w base ext (Suc counter) \<le> later_candidates w base ext counter"
  unfolding later_candidates_def
proof (rule filter_length_le)
  fix y assume "\<exists>k\<ge>Suc counter. y = candidate base ext k"
  then obtain k where "Suc counter \<le> k" "y = candidate base ext k" by blast
  then have "counter \<le> k \<and> y = candidate base ext k" by simp
  then show "\<exists>k\<ge>counter. y = candidate base ext k" by blast
qed

function rename_loop :: "world \<Rightarrow> string \<Rightarrow> string \<Rightarrow> string \<Rightarrow> nat \<Rightarrow> string" where
  "rename_loop w base ext dst counter =
     (if path_exists w dst then rename_loop w base ext (candidate base ext counter) (counter + 1)
      else dst)"
  by pat_completeness auto
termination
proof (relation "measure (\<lambda>(w, base, ext, dst, counter).
          2 * later_candidates w base ext counter + (if path_exists w dst then 1 else 0))", goal_cases)
  case 1
  show ?case by simp
next
  case (2 w base ext dst counter)
  show ?case
  proof (cases "path_exists w (candidate base ext counter)")
    case True
    then show ?thesis using 2 later_candidates_less [OF True] by simp
  next
    case False
    then show ?thesis using 2 later_candidates_mono [of w base ext counter] by simp
  qed
qed

declare rename_loop.simps [simp del]

text \<open>
  \<open>_handle_duplicate\<close>. The result is \<open>None\<close> for a skip. An exception of \<open>os.remove\<close>
  is not caught here, so it is the result of the call.
\<close>

definition handle_duplicate ::
  "world \<Rightarrow> string \<Rightarrow> string \<Rightarrow> string \<Rightarrow> (exn + string option) \<times> world" where
  "handle_duplicate w src dst duplicate_strategy =
     (if \<not> path_exists w dst then (Inr (Some dst), w)
      else if duplicate_strategy = ''skip'' then (Inr None, w)
      else if duplicate_strategy = ''replace'' then
        (case os_remove w dst of
           Inl e \<Rightarrow> (Inl e, w)
         | Inr w' \<Rightarrow> (Inr (Some dst), w'))
      else if duplicate_strategy = ''rename'' then
        (Inr (Some (rename_loop w (fst (splitext dst)) (snd (splitext dst)) dst 1)), w)
      else (Inr (Some dst), w))"

definition zero_stats :: stats where
  "zero_stats = \<lparr>moved = 0, skipped = 0, errors = 0\<rparr>"

text \<open>
  The destination directory of an entry: \<open>source/category\<close>, or with \<open>organize_by_date\<close>
  the month folder below it. \<open>os.path.getmtime\<close> is called outside the \<open>try\<close> block.
\<close>

definition dest_dir_of :: "sorter \<Rightarrow> bool \<Rightarrow> world \<Rightarrow> string \<Rightarrow> string \<Rightarrow> exn + string" where
  "dest_dir_of s organize_by_date w source_path cat =
     (if organize_by_date then
        (case getmtime w source_path of
           Inl e \<Rightarrow> Inl e
         | Inr m \<Rightarrow> Inr (join (join (source_dir s) cat) (strftime_Ym m)))
      else Inr (join (source_dir s) cat))"

text \<open>
  The \<open>try\<close> block of the loop body: create the parent directory, move the file, record
  the operation. Any exception raised inside it is counted as an error.
\<close>

definition execute_move ::
  "string \<Rightarrow> string \<Rightarrow> string \<Rightarrow> string \<Rightarrow> stats \<times> operation list \<Rightarrow> world
   \<Rightarrow> (stats \<times> operation list) \<times> world" where
  "execute_move source_path final_dest fname cat acc w =
     (case makedirs w (dirname final_dest) True of
        (Some e, w1) \<Rightarrow> ((fst acc\<lparr>errors := errors (fst acc) + 1\<rparr>, snd acc), w1)
      | (None, w1) \<Rightarrow>
          (case shutil_move w1 source_path final_dest of
             Inl e \<Rightarrow> ((fst acc\<lparr>errors := errors (fst acc) + 1\<rparr>, snd acc), w1)
           | Inr w2 \<Rightarrow>
               ((fst acc\<lparr>moved := moved (fst acc) + 1\<rparr>,
                 snd acc @ [\<lparr>timestamp = now_iso w2, source = source_path,
                             destination = final_dest, filename = fname, category = cat\<rparr>]),
                w2)))"

text \<open>
  One iteration of the loop of \<open>sort_files\<close>. The accumulator holds the statistics and
  the operations recorded so far. \<open>if not category\<close> is true of \<open>None\<close> and of the empty name.
\<close>

definition sort_entry ::
  "sorter \<Rightarrow> bool \<Rightarrow> string \<Rightarrow> bool \<Rightarrow> string \<Rightarrow> stats \<times> operation list \<Rightarrow> world
   \<Rightarrow> (exn + stats \<times> operation list) \<times> world" where
  "sort_entry s dry_run duplicate_strategy organize_by_date fname acc w =
     (if isdir w (join (source_dir s) fname) \<or> fname = basename (history_file s) then (Inr acc, w)
      else
        (case get_category_for_extension (config s) (lower (snd (splitext fname))) of
           None \<Rightarrow> (Inr (fst acc\<lparr>skipped := skipped (fst acc) + 1\<rparr>, snd acc), w)
         | Some cat \<Rightarrow>
             if cat = [] then (Inr (fst acc\<lparr>skipped := skipped (fst acc) + 1\<rparr>, snd acc), w)
             else
               (case dest_dir_of s organize_by_date w (join (source_dir s) fname) cat of
                  Inl e \<Rightarrow> (Inl e, w)
                | Inr dest_dir \<Rightarrow>
                    (case handle_duplicate w (join (source_dir s) fname) (join dest_dir fname)
                            duplicate_strategy of
                       (Inl e, w1) \<Rightarrow> (Inl e, w1)
                     | (Inr None, w1) \<Rightarrow>
                         (Inr (fst acc\<lparr>skipped := skipped (fst acc) + 1\<rparr>, snd acc), w1)
                     | (Inr (Some final_dest), w1) \<Rightarrow>
                         if dry_run then (Inr (fst acc\<lparr>moved := moved (fst acc) + 1\<rparr>, snd acc), w1)
                         else (case execute_move (join (source_dir s) fname) final_dest fname cat acc w1 of
                                 (acc', w2) \<Rightarrow> (Inr acc', w2))))))"

fun sort_loop ::
  "sorter \<Rightarrow> bool \<Rightarrow> string \<Rightarrow> bool \<Rightarrow> string list \<Rightarrow> stats \<times> operation list \<Rightarrow> world
   \<Rightarrow> (exn + stats \<times> operation list) \<times> world" where
  "sort_loop s dry_run duplicate_strategy organize_by_date [] acc w = (Inr acc, w)"
| "sort_loop s dry_run duplicate_strategy organize_by_date (fname # rest) acc w =
     (case sort_entry s dry_run duplicate_strategy organize_by_date fname acc w of
        (Inl e, w') \<Rightarrow> (Inl e, w')
      | (Inr acc', w') \<Rightarrow> sort_loop s dry_run duplicate_strategy organize_by_date rest acc' w')"

text \<open>
  \<open>sort_files\<close> returns the statistics, or the exception that escaped, together with the
  sorter (its history) and the world as the call leaves them.
\<close>

definition sort_files ::
  "(operation list \<Rightarrow> string) \<Rightarrow> sorter \<Rightarrow> bool \<Rightarrow> string \<Rightarrow> bool \<Rightarrow> world
   \<Rightarrow> (exn + stats) \<times> sorter \<times> world" where
  "sort_files dump s dry_run duplicate_strategy organize_by_date w =
     (case ensure_directories_exist s w of
        (Some e, w1) \<Rightarrow> (Inl e, s, w1)
      | (None, w1) \<Rightarrow>
          (case listdir w1 (source_dir s) of
             Inl e \<Rightarrow> (Inr zero_stats, s, w1)
           | Inr items \<Rightarrow>
               (case sort_loop s dry_run duplicate_strategy organize_by_date items (zero_stats, []) w1 of
                  (Inl e, w2) \<Rightarrow> (Inl e, s, w2)
                | (Inr acc, w2) \<Rightarrow>
                    if snd acc \<noteq> [] \<and> \<not> dry_run
                    then (Inr (fst acc), s\<lparr>history := history s @ snd acc\<rparr>,
                          save_history dump (s\<lparr>history := history s @ snd acc\<rparr>) w2)
                    else (Inr (fst acc), s, w2))))"

text \<open>
  \<open>undo_last_operation\<close>: the loop runs \<open>min(count, len(history))\<close> times (not at all for
  a negative count), pops the last record each time and moves its destination back when
  it exists; a failing move is caught. The history is saved once at the end.
\<close>

fun undo_loop :: "nat \<Rightarrow> operation list \<Rightarrow> world \<Rightarrow> nat \<Rightarrow> operation list \<times> world \<times> nat" where
  "undo_loop 0 h w restored = (h, w, restored)"
| "undo_loop (Suc n) h w restored =
     (if h = [] then (h, w, restored)
      else if path_exists w (destination (last h)) then
        (case shutil_move w (destination (last h)) (source (last h)) of
           Inr w' \<Rightarrow> undo_loop n (butlast h) w' (restored + 1)
         | Inl e \<Rightarrow> undo_loop n (butlast h) w restored)
      else undo_loop n (butlast h) w restored)"

definition undo_last_operation ::
  "(operation list \<Rightarrow> string) \<Rightarrow> sorter \<Rightarrow> int \<Rightarrow> world \<Rightarrow> nat \<times> sorter \<times> world" where
  "undo_last_operation dump s count w =
     (case undo_loop (nat (min count (int (length (history s))))) (history s) w 0 of
        (h, w', restored) \<Rightarrow>
          (restored, s\<lparr>history := h\<rparr>, save_history dump (s\<lparr>history := h\<rparr>) w'))"

text \<open>
  \<open>find_duplicates\<close>: \<open>hash_map\<close> is a dictionary from digests to lists of paths, in
  insertion order. \<open>hashlib.md5\<close> is library code: the digest is the parameter \<open>md5\<close>.
\<close>

definition hash_map_add :: "string \<Rightarrow> string \<Rightarrow> (string \<times> string list) list \<Rightarrow> (string \<times> string list) list" where
  "hash_map_add file_hash filepath hash_map =
     (case map_of hash_map file_hash of
        None \<Rightarrow> AList.update file_hash [filepath] hash_map
      | Some files \<Rightarrow> AList.update file_hash (files @ [filepath]) hash_map)"

fun hash_loop ::
  "(string \<Rightarrow> string) \<Rightarrow> world \<Rightarrow> string \<Rightarrow> string list \<Rightarrow> (string \<times> string list) list
   \<Rightarrow> (string \<times> string list) list" where
  "hash_loop md5 w src [] hash_map = hash_map"
| "hash_loop md5 w src (fname # rest) hash_map =
     (if isdir w (join src fname) then hash_loop md5 w src rest hash_map
      else if get_file_hash md5 w (join src fname) \<noteq> []
      then hash_loop md5 w src rest
             (hash_map_add (get_file_hash md5 w (join src fname)) (join src fname) hash_map)
      else hash_loop md5 w src rest hash_map)"

definition find_duplicates :: "(string \<Rightarrow> string) \<Rightarrow> sorter \<Rightarrow> world \<Rightarrow> (string \<times> string list) list" where
  "find_duplicates md5 s w =
     (case listdir w (source_dir s) of
        Inl e \<Rightarrow> []
      | Inr items \<Rightarrow>
          filter (\<lambda>hf. length (snd hf) > 1) (hash_loop md5 w (source_dir s) items []))"

section \<open>Example worlds\<close>

text \<open>
  A source directory \<open>/src\<close> with one new video, whose name is already taken twice in
  \<open>/src/Videos\<close>, and a sorter on it with the default configuration.
\<close>

definition wC :: world where
  "wC = \<lparr>tree = [(''/'', Dir), (''/src'', Dir), (''/src/a.mp4'', File ''new'' (2024, 3)),
                 (''/src/Videos'', Dir), (''/src/Videos/a.mp4'', File ''old'' (2023, 1)),
                 (''/src/Videos/a_1.mp4'', File ''older'' (2022, 1))],
          denied = [], now_iso = ''2026-01-01T00:00:00'', now_ym = (2026, 1)\<rparr>"

definition sC :: sorter where
  "sC = \<lparr>source_dir = ''/src'', config = default_config, create_subdirs = True,
          history_file = ''/src/file_sorter_history.json'', history = []\<rparr>"

text \<open>
  The same directory after a pass that moved a video and a picture, with the two records
  in the history, and a stand-in for the JSON serialiser.
\<close>

definition toy_dump :: "operation list \<Rightarrow> string" where
  "toy_dump h = concat (map (\<lambda>op. source op @ ''>'' @ destination op @ '';'') h)"



text \<open>
  A directory with three videos where the name of the second is taken in \<open>/src/Videos\<close>
  by a file that the operating system refuses to delete, a sorter with a single category
  on it, and a fresh directory \<open>/src\<close> that has no category folders yet.
\<close>

definition wR :: world where
  "wR = \<lparr>tree = [(''/'', Dir), (''/src'', Dir), (''/src/Videos'', Dir),
                 (''/src/a.mp4'', File ''A'' (2024, 3)),
                 (''/src/b.mp4'', File ''B'' (2024, 4)),
                 (''/src/c.mp4'', File ''C'' (2024, 5)),
                 (''/src/Videos/b.mp4'', File ''old'' (2023, 1))],
          denied = [''/src/Videos/b.mp4''], now_iso = ''2026-01-01T00:00:00'', now_ym = (2026, 1)\<rparr>"

definition sR :: sorter where
  "sR = \<lparr>source_dir = ''/src'',
          config = \<lparr>config_path = None, categories = [(''Videos'', [''.mp4'', ''.mkv''])]\<rparr>,
          create_subdirs = True,
          history_file = ''/src/file_sorter_history.json'', history = []\<rparr>"

definition wD :: world where
  "wD = \<lparr>tree = [(''/'', Dir), (''/src'', Dir),
                 (''/src/a.mp4'', File ''A'' (2024, 3)),
                 (''/src/notes.txt'', File ''N'' (2024, 4))],
          denied = [], now_iso = ''2026-01-01T00:00:00'', now_ym = (2026, 1)\<rparr>"

text \<open>
  A directory with three readable files of the same content, one of another content, one
  unreadable file and a subdirectory, and a stand-in for the MD5 digest.
\<close>

definition toy_md5 :: "string \<Rightarrow> string" where
  "toy_md5 c = ''md5:'' @ c"

definition wH :: world where
  "wH = \<lparr>tree = [(''/'', Dir), (''/src'', Dir),
                 (''/src/x.txt'', File ''same'' (2024, 3)),
                 (''/src/u.txt'', File ''other'' (2024, 3)),
                 (''/src/y.txt'', File ''same'' (2024, 4)),
                 (''/src/sub'', Dir),
                 (''/src/locked'', File ''same'' (2024, 4)),
                 (''/src/z.bin'', File ''same'' (2024, 5)),
                 (''/src/sub/deep.txt'', File ''same'' (2024, 5))],
          denied = [''/src/locked''], now_iso = ''2026-01-01T00:00:00'', now_ym = (2026, 1)\<rparr>"

text \<open>A source directory that may be searched and written but not listed.\<close>

definition wL :: world where
  "wL = \<lparr>tree = [(''/'', Dir), (''/src'', Dir),
                 (''/src/a.mp4'', File ''A'' (2024, 3))],
          denied = [''/src''], now_iso = ''2026-01-01T00:00:00'', now_ym = (2026, 1)\<rparr>"

text \<open>
  A sorter whose history file lives outside the source directory, and a source directory
  that holds an unrelated file of the same name.
\<close>

definition sN :: sorter where
  "sN = \<lparr>source_dir = ''/src'',
          config = \<lparr>config_path = None, categories = [(''Documents'', [''.txt''])]\<rparr>,
          create_subdirs = True,
          history_file = ''/home/u/history.txt'', history = []\<rparr>"

definition wN :: world where
  "wN = \<lparr>tree = [(''/'', Dir), (''/home'', Dir), (''/home/u'', Dir), (''/src'', Dir),
                 (''/src/history.txt'', File ''unrelated notes'' (2024, 3)),
                 (''/src/other.txt'', File ''O'' (2024, 4))],
          denied = [], now_iso = ''2026-01-01T00:00:00'', now_ym = (2026, 1)\<rparr>"

text \<open>
  A sorter with one older record in its history, whose history file lives outside the
  source directory, on a directory with two files to sort and one without category; the
  name of the video is taken in \<open>/src/Videos\<close>. Then the sorter and the directory after a
  pass under policy \<open>rename\<close>, and the directory after undoing the two moves of that pass.
\<close>

definition sT :: sorter where
  "sT = \<lparr>source_dir = ''/src'',
          config = \<lparr>config_path = None,
                     categories = [(''Videos'', [''.mp4'']), (''Documents'', [''.txt''])]\<rparr>,
          create_subdirs = True,
          history_file = ''/home/u/file_sorter_history.json'',
          history = [\<lparr>timestamp = ''2025-12-24T18:00:00'', source = ''/src/old.mp4'',
                       destination = ''/src/Videos/a.mp4'', filename = ''old.mp4'', category = ''Videos''\<rparr>]\<rparr>"

definition wT :: world where
  "wT = \<lparr>tree = [(''/'', Dir), (''/home'', Dir), (''/home/u'', Dir), (''/src'', Dir),
                 (''/src/a.mp4'', File ''A'' (2024, 3)),
                 (''/src/notes.txt'', File ''N'' (2024, 4)),
                 (''/src/readme'', File ''R'' (2024, 4)),
                 (''/src/Videos'', Dir),
                 (''/src/Videos/a.mp4'', File ''old'' (2023, 1))],
          denied = [], now_iso = ''2026-01-01T00:00:00'', now_ym = (2026, 1)\<rparr>"

definition sT_sorted :: sorter where
  "sT_sorted = sT\<lparr>history :=
     [\<lparr>timestamp = ''2025-12-24T18:00:00'', source = ''/src/old.mp4'',
       destination = ''/src/Videos/a.mp4'', filename = ''old.mp4'', category = ''Videos''\<rparr>,
      \<lparr>timestamp = ''2026-01-01T00:00:00'', source = ''/src/a.mp4'',
       destination = ''/src/Videos/a_1.mp4'', filename = ''a.mp4'', category = ''Videos''\<rparr>,
      \<lparr>timestamp = ''2026-01-01T00:00:00'', source = ''/src/notes.txt'',
       destination = ''/src/Documents/notes.txt'', filename = ''notes.txt'', category = ''Documents''\<rparr>]\<rparr>"

definition wT_sorted :: world where
  "wT_sorted = wT\<lparr>tree :=
     [(''/'', Dir), (''/home'', Dir), (''/home/u'', Dir), (''/src'', Dir),
      (''/src/readme'', File ''R'' (2024, 4)), (''/src/Videos'', Dir),
      (''/src/Videos/a.mp4'', File ''old'' (2023, 1)),
      (''/src/Documents'', Dir),
      (''/src/Videos/a_1.mp4'', File ''A'' (2024, 3)),
      (''/src/Documents/notes.txt'', File ''N'' (2024, 4)),
      (''/home/u/file_sorter_history.json'',
       File ''/src/old.mp4>/src/Videos/a.mp4;/src/a.mp4>/src/Videos/a_1.mp4;/src/notes.txt>/src/Documents/notes.txt;''
         (2026, 1))]\<rparr>"

definition wT_undone :: world where
  "wT_undone = wT\<lparr>tree :=
     [(''/'', Dir), (''/home'', Dir), (''/home/u'', Dir), (''/src'', Dir),
      (''/src/readme'', File ''R'' (2024, 4)), (''/src/Videos'', Dir),
      (''/src/Videos/a.mp4'', File ''old'' (2023, 1)),
      (''/src/Documents'', Dir),
      (''/home/u/file_sorter_history.json'',
       File ''/src/old.mp4>/src/Videos/a.mp4;'' (2026, 1)),
      (''/src/notes.txt'', File ''N'' (2024, 4)),
      (''/src/a.mp4'', File ''A'' (2024, 3))]\<rparr>"

text \<open>
  A configuration with a category that is named like a file of the source directory,
  before a pass, after it, and after undoing its two moves.
\<close>

definition sX :: sorter where
  "sX = \<lparr>source_dir = ''/src'',
          config = \<lparr>config_path = None,
                     categories = [(''Videos'', [''.mp4'']), (''a.mp4'', [''.txt''])]\<rparr>,
          create_subdirs = True,
          history_file = ''/home/u/file_sorter_history.json'', history = []\<rparr>"

definition wX :: world where
  "wX = \<lparr>tree = [(''/'', Dir), (''/home'', Dir), (''/home/u'', Dir), (''/src'', Dir),
                 (''/src/a.mp4'', File ''A'' (2024, 3)),
                 (''/src/b.txt'', File ''B'' (2024, 4))],
          denied = [], now_iso = ''2026-01-01T00:00:00'', now_ym = (2026, 1)\<rparr>"

definition sX_sorted :: sorter where
  "sX_sorted = sX\<lparr>history :=
     [\<lparr>timestamp = ''2026-01-01T00:00:00'', source = ''/src/a.mp4'',
       destination = ''/src/Videos/a.mp4'', filename = ''a.mp4'', category = ''Videos''\<rparr>,
      \<lparr>timestamp = ''2026-01-01T00:00:00'', source = ''/src/b.txt'',
       destination = ''/src/a.mp4/b.txt'', filename = ''b.txt'', category = ''a.mp4''\<rparr>]\<rparr>"

definition wX_sorted :: world where
  "wX_sorted = wX\<lparr>tree :=
     [(''/'', Dir), (''/home'', Dir), (''/home/u'', Dir), (''/src'', Dir),
      (''/src/Videos'', Dir), (''/src/Videos/a.mp4'', File ''A'' (2024, 3)),
      (''/src/a.mp4'', Dir), (''/src/a.mp4/b.txt'', File ''B'' (2024, 4)),
      (''/home/u/file_sorter_history.json'',
       File ''/src/a.mp4>/src/Videos/a.mp4;/src/b.txt>/src/a.mp4/b.txt;'' (2026, 1))]\<rparr>"

definition wX_undone :: world where
  "wX_undone = wX\<lparr>tree :=
     [(''/'', Dir), (''/home'', Dir), (''/home/u'', Dir), (''/src'', Dir),
      (''/src/Videos'', Dir), (''/src/a.mp4'', Dir),
      (''/home/u/file_sorter_history.json'', File [] (2026, 1)),
      (''/src/b.txt'', File ''B'' (2024, 4)),
      (''/src/a.mp4/a.mp4'', File ''A'' (2024, 3))]\<rparr>"

text \<open>
  A sorter whose history file is the path that policy \<open>rename\<close> picks for the one video of
  the directory, before a pass, after it, and after undoing its move.
\<close>

definition sJ :: sorter where
  "sJ = \<lparr>source_dir = ''/src'',
          config = \<lparr>config_path = None, categories = [(''Videos'', [''.mp4''])]\<rparr>,
          create_subdirs = True,
          history_file = ''/src/Videos/a_1.mp4'', history = []\<rparr>"

definition wJ :: world where
  "wJ = \<lparr>tree = [(''/'', Dir), (''/src'', Dir),
                 (''/src/a.mp4'', File ''A'' (2024, 3)),
                 (''/src/Videos'', Dir),
                 (''/src/Videos/a.mp4'', File ''old'' (2023, 1))],
          denied = [], now_iso = ''2026-01-01T00:00:00'', now_ym = (2026, 1)\<rparr>"

definition sJ_sorted :: sorter where
  "sJ_sorted = sJ\<lparr>history :=
     [\<lparr>timestamp = ''2026-01-01T00:00:00'', source = ''/src/a.mp4'',
       destination = ''/src/Videos/a_1.mp4'', filename = ''a.mp4'', category = ''Videos''\<rparr>]\<rparr>"

definition wJ_sorted :: world where
  "wJ_sorted = wJ\<lparr>tree :=
     [(''/'', Dir), (''/src'', Dir), (''/src/Videos'', Dir),
      (''/src/Videos/a.mp4'', File ''old'' (2023, 1)),
      (''/src/Videos/a_1.mp4'', File ''/src/a.mp4>/src/Videos/a_1.mp4;'' (2026, 1))]\<rparr>"

definition wJ_undone :: world where
  "wJ_undone = wJ\<lparr>tree :=
     [(''/'', Dir), (''/src'', Dir), (''/src/Videos'', Dir),
      (''/src/Videos/a.mp4'', File ''old'' (2023, 1)),
      (''/src/a.mp4'', File ''/src/a.mp4>/src/Videos/a_1.mp4;'' (2026, 1)),
      (''/src/Videos/a_1.mp4'', File [] (2026, 1))]\<rparr>"

section \<open>Facts about paths\<close>

lemma rev_split_append: "rev (dropWhile P (rev p)) @ rev (takeWhile P (rev p)) = p"
proof -
  have "rev (takeWhile P (rev p) @ dropWhile P (rev p)) = rev (rev p)"
    by (simp only: takeWhile_dropWhile_id)
  then show ?thesis by (simp only: rev_append rev_rev_ident)
qed

lemma rfind_split_append: "fst (rfind_split p) @ snd (rfind_split p) = p"
  by (simp only: rfind_split_def fst_conv snd_conv rev_split_append)

lemma stem_ext_append:
  assumes "CHR ''.'' \<in> set name"
  shows "rev (tl (dropWhile (\<lambda>c. c \<noteq> CHR ''.'') (rev name)))
         @ CHR ''.'' # rev (takeWhile (\<lambda>c. c \<noteq> CHR ''.'') (rev name)) = name"
proof -
  let ?d = "dropWhile (\<lambda>c. c \<noteq> CHR ''.'') (rev name)"
  let ?t = "takeWhile (\<lambda>c. c \<noteq> CHR ''.'') (rev name)"
  have "?d \<noteq> []" using assms by (simp add: dropWhile_eq_Nil_conv)
  moreover have "hd ?d = CHR ''.''" using \<open>?d \<noteq> []\<close> hd_dropWhile [of "\<lambda>c. c \<noteq> CHR ''.''" "rev name"] by simp
  ultimately have "?d = CHR ''.'' # tl ?d" by (cases ?d) auto
  then have "rev ?d = rev (tl ?d) @ [CHR ''.'']" by (metis rev.simps(2))
  then have "rev (tl ?d) @ CHR ''.'' # rev ?t = rev ?d @ rev ?t" by simp
  also have "\<dots> = name" by (rule rev_split_append)
  finally show ?thesis .
qed

lemma splitext_append: "fst (splitext p) @ snd (splitext p) = p"
  using rfind_split_append [of p] stem_ext_append [of "snd (rfind_split p)"]
  by (auto simp: splitext_def Let_def)

text \<open>
  A plain name is what \<open>os.listdir\<close> reports: not empty and without a separator. Joined
  to a directory it is the last component of the result.
\<close>

definition plain :: "string \<Rightarrow> bool" where
  "plain f = (f \<noteq> [] \<and> CHR ''/'' \<notin> set f)"

lemma rev_last: "p \<noteq> [] \<Longrightarrow> rev p = last p # rev (butlast p)"
  by (cases p rule: rev_cases) auto

lemma takeWhile_stop:
  "\<forall>x \<in> set xs. P x \<Longrightarrow> \<not> P y \<Longrightarrow>
     takeWhile P (xs @ y # ys) = xs \<and> dropWhile P (xs @ y # ys) = y # ys"
  by (induction xs) auto

lemma rfind_split_plain:
  assumes "CHR ''/'' \<notin> set f" and "a = [] \<or> last a = CHR ''/''"
  shows "rfind_split (a @ f) = (a, f)"
proof -
  have all: "\<forall>x \<in> set (rev f). x \<noteq> CHR ''/''" using assms(1) by auto
  have "takeWhile (\<lambda>c. c \<noteq> CHR ''/'') (rev f @ rev a) = rev f
        \<and> dropWhile (\<lambda>c. c \<noteq> CHR ''/'') (rev f @ rev a) = rev a"
  proof (cases "a = []")
    case True
    then show ?thesis using all by (simp add: takeWhile_eq_all_conv)
  next
    case False
    then have "rev a \<noteq> []" "hd (rev a) = CHR ''/''" using assms(2) by (simp_all add: hd_rev)
    then obtain ra where ra: "rev a = CHR ''/'' # ra" by (cases "rev a") auto
    have "takeWhile (\<lambda>c. c \<noteq> CHR ''/'') (rev f @ CHR ''/'' # ra) = rev f
          \<and> dropWhile (\<lambda>c. c \<noteq> CHR ''/'') (rev f @ CHR ''/'' # ra) = CHR ''/'' # ra"
      using all by (intro takeWhile_stop) auto
    then show ?thesis by (simp only: ra)
  qed
  then show ?thesis by (simp add: rfind_split_def)
qed

lemma join_plain: "plain f \<Longrightarrow> join d f = dir_prefix d @ f"
  by (cases f) (auto simp: join_def dir_prefix_def plain_def)

lemma dir_prefix_ends: "dir_prefix d = [] \<or> last (dir_prefix d) = CHR ''/''"
  by (simp add: dir_prefix_def)

lemma basename_join: "plain f \<Longrightarrow> basename (join d f) = f"
  using rfind_split_plain [of f "dir_prefix d"] dir_prefix_ends [of d]
  by (simp add: join_plain basename_def path_split_def plain_def Let_def)

lemma join_inj: "plain f \<Longrightarrow> plain g \<Longrightarrow> join d f = join d g \<Longrightarrow> f = g"
  by (simp add: join_plain)

lemma dirname_shorter: "basename p \<noteq> [] \<Longrightarrow> length (dirname p) < length p"
  using length_path_split_fst [of p] by (cases "basename p") (auto simp: dirname_def basename_def)

lemma basename_nonempty: "p \<noteq> [] \<Longrightarrow> last p \<noteq> CHR ''/'' \<Longrightarrow> basename p \<noteq> []"
proof -
  assume "p \<noteq> []" "last p \<noteq> CHR ''/''"
  then have "rev p \<noteq> []" "hd (rev p) \<noteq> CHR ''/''" by (simp_all add: hd_rev)
  then obtain x rp where "rev p = x # rp" "x \<noteq> CHR ''/''" by (cases "rev p") auto
  then have "takeWhile (\<lambda>c. c \<noteq> CHR ''/'') (rev p) \<noteq> []" by simp
  then show ?thesis by (simp add: basename_def path_split_def rfind_split_def Let_def)
qed

lemma listdir_items:
  assumes "listdir w d = Inr items"
  shows "distinct items \<and> (\<forall>f \<in> set items. plain f \<and> path_exists w (join d f))"
proof -
  have it: "items = remdups (child_names d (map fst (tree w)))"
    using assms by (auto simp: listdir_def split: if_splits)
  have "plain f \<and> path_exists w (join d f)" if "f \<in> set items" for f
  proof -
    from that it obtain p where p: "p \<in> set (map fst (tree w))"
      "take (length (dir_prefix d)) p = dir_prefix d"
      "f = drop (length (dir_prefix d)) p" "f \<noteq> []" "CHR ''/'' \<notin> set f"
      by (auto simp: child_names_def)
    then have pl: "plain f" by (simp add: plain_def)
    have "p = dir_prefix d @ f" using p(2,3) by (metis append_take_drop_id)
    then have "join d f = p" using pl by (simp add: join_plain)
    moreover have "path_exists w p" using p(1)
      by (simp add: path_exists_def node_at_def map_of_eq_None_iff)
    ultimately show ?thesis using pl by simp
  qed
  then show ?thesis using it by simp
qed

lemma basename_no_sep: "CHR ''/'' \<notin> set (basename p)"
  by (auto simp: basename_def path_split_def rfind_split_def Let_def dest: set_takeWhileD)

section \<open>What the file system operations change\<close>

text \<open>
  \<open>adds_dirs n w w'\<close>: from \<open>w\<close> to \<open>w'\<close> nothing happened but the creation of directories
  at paths of length at most \<open>n\<close> where nothing was. \<open>os.makedirs\<close> and the creation of the
  category directories are of this kind.
\<close>

lemma node_at_update [simp]:
  "node_at (w\<lparr>tree := AList.update p n (tree w)\<rparr>) q = (if q = p then Some n else node_at w q)"
  by (simp add: node_at_def update_conv')

lemma node_at_delete [simp]:
  "node_at (w\<lparr>tree := AList.delete p (tree w)\<rparr>) q = (if q = p then None else node_at w q)"
  by (simp add: node_at_def delete_conv')

definition adds_dirs :: "nat \<Rightarrow> world \<Rightarrow> world \<Rightarrow> bool" where
  "adds_dirs n w w' =
     (denied w' = denied w \<and> now_iso w' = now_iso w \<and> now_ym w' = now_ym w \<and>
      (\<forall>p. node_at w' p = node_at w p
           \<or> (node_at w p = None \<and> node_at w' p = Some Dir \<and> length p \<le> n)))"

lemma adds_dirs_refl: "adds_dirs n w w"
  by (simp add: adds_dirs_def)

lemma adds_dirs_trans: "adds_dirs n w w1 \<Longrightarrow> adds_dirs n w1 w2 \<Longrightarrow> adds_dirs n w w2"
  unfolding adds_dirs_def by (metis option.distinct(1))

lemma adds_dirs_mono: "adds_dirs n w w' \<Longrightarrow> n \<le> m \<Longrightarrow> adds_dirs m w w'"
  unfolding adds_dirs_def by (metis order_trans)

lemma os_mkdir_adds: "os_mkdir w p = Inr w' \<Longrightarrow> adds_dirs (length p) w w'"
  by (auto simp: os_mkdir_def adds_dirs_def path_exists_def split: if_splits)

lemma mkdir_step_adds:
  assumes "(case os_mkdir w1 name of
              Inr w2 \<Rightarrow> (None, w2)
            | Inl e' \<Rightarrow> if \<not> exist_ok \<or> \<not> isdir w1 name then (Some e', w1) else (None, w1)) = (r, w')"
  shows "adds_dirs (length name) w1 w'"
  using assms os_mkdir_adds [of w1 name]
  by (auto simp: adds_dirs_refl split: sum.splits if_splits)

lemma makedirs_adds: "makedirs w name exist_ok = (r, w') \<Longrightarrow> adds_dirs (length name) w w'"
proof (induction w name exist_ok arbitrary: r w' rule: makedirs.induct)
  case (1 w name exist_ok)
  show ?case
  proof (cases "md_head name \<noteq> [] \<and> md_tail name \<noteq> [] \<and> \<not> path_exists w (md_head name)")
    case False
    then have "(case os_mkdir w name of
              Inr w2 \<Rightarrow> (None, w2)
            | Inl e' \<Rightarrow> if \<not> exist_ok \<or> \<not> isdir w name then (Some e', w) else (None, w)) = (r, w')"
      using "1.prems" by (subst (asm) makedirs.simps) (simp only: if_False)
    then show ?thesis by (rule mkdir_step_adds)
  next
    case True
    obtain r1 w1 where rec: "makedirs w (md_head name) exist_ok = (r1, w1)"
      by (cases "makedirs w (md_head name) exist_ok") auto
    from "1.IH" [OF True rec] have "adds_dirs (length (md_head name)) w w1" .
    moreover have "length (md_head name) \<le> length name"
      using True md_head_shorter [of name] by simp
    ultimately have a1: "adds_dirs (length name) w w1" by (rule adds_dirs_mono)
    have unf: "makedirs w name exist_ok =
       (case (r1, w1) of
              (Some e, w1) \<Rightarrow>
                if e = FileExistsError
                then (if md_tail name = ''.'' then (None, w1)
                      else (case os_mkdir w1 name of
                              Inr w2 \<Rightarrow> (None, w2)
                            | Inl e' \<Rightarrow> if \<not> exist_ok \<or> \<not> isdir w1 name then (Some e', w1)
                                        else (None, w1)))
                else (Some e, w1)
            | (None, w1) \<Rightarrow>
                if md_tail name = ''.'' then (None, w1)
                else (case os_mkdir w1 name of
                        Inr w2 \<Rightarrow> (None, w2)
                      | Inl e' \<Rightarrow> if \<not> exist_ok \<or> \<not> isdir w1 name then (Some e', w1)
                                  else (None, w1)))"
      using True rec by (subst makedirs.simps) simp
    have "w' = w1 \<or> (case os_mkdir w1 name of
                        Inr w2 \<Rightarrow> (None, w2)
                      | Inl e' \<Rightarrow> if \<not> exist_ok \<or> \<not> isdir w1 name then (Some e', w1)
                                  else (None, w1)) = (r, w')"
      using "1.prems" unfolding unf by (cases r1) (auto split: if_splits)
    then have "adds_dirs (length name) w1 w'"
    proof
      assume "w' = w1"
      then show ?thesis by (simp add: adds_dirs_refl)
    next
      assume "(case os_mkdir w1 name of
                        Inr w2 \<Rightarrow> (None, w2)
                      | Inl e' \<Rightarrow> if \<not> exist_ok \<or> \<not> isdir w1 name then (Some e', w1)
                                  else (None, w1)) = (r, w')"
      then show ?thesis by (rule mkdir_step_adds)
    qed
    with a1 show ?thesis by (rule adds_dirs_trans)
  qed
qed

lemma adds_dirs_any: "adds_dirs n w w' \<Longrightarrow> \<exists>m. adds_dirs m w w'"
  by blast

definition only_adds_dirs :: "world \<Rightarrow> world \<Rightarrow> bool" where
  "only_adds_dirs w w' = (\<exists>n. adds_dirs n w w')"

lemma only_adds_dirs_refl: "only_adds_dirs w w"
  unfolding only_adds_dirs_def using adds_dirs_refl by blast

lemma only_adds_dirs_trans:
  assumes "only_adds_dirs w w1" "only_adds_dirs w1 w2"
  shows "only_adds_dirs w w2"
proof -
  from assms obtain n m where "adds_dirs n w w1" "adds_dirs m w1 w2"
    unfolding only_adds_dirs_def by blast
  then have "adds_dirs (max n m) w w1" "adds_dirs (max n m) w1 w2"
    by (auto intro: adds_dirs_mono)
  then show ?thesis unfolding only_adds_dirs_def using adds_dirs_trans by blast
qed

lemma ensure_loop_adds: "ensure_loop src cats w = (r, w') \<Longrightarrow> only_adds_dirs w w'"
proof (induction cats arbitrary: w)
  case Nil
  then show ?case by (simp add: only_adds_dirs_refl)
next
  case (Cons c cs)
  show ?case
  proof (cases "path_exists w (join src c)")
    case True
    with Cons show ?thesis by simp
  next
    case False
    obtain r1 w1 where mk: "makedirs w (join src c) False = (r1, w1)"
      by (cases "makedirs w (join src c) False") auto
    then have a: "only_adds_dirs w w1" unfolding only_adds_dirs_def using makedirs_adds by blast
    show ?thesis
    proof (cases r1)
      case None
      with Cons.prems False mk have "ensure_loop src cs w1 = (r, w')" by simp
      from Cons.IH [OF this] a show ?thesis using only_adds_dirs_trans by blast
    next
      case (Some e)
      with Cons.prems False mk have "w' = w1" by simp
      with a show ?thesis by simp
    qed
  qed
qed

lemma ensure_directories_adds:
  "ensure_directories_exist s w = (r, w') \<Longrightarrow> only_adds_dirs w w'"
  by (auto simp: ensure_directories_exist_def only_adds_dirs_refl ensure_loop_adds split: if_splits)

lemma only_adds_dirs_files:
  "only_adds_dirs w w' \<Longrightarrow> (node_at w' p = Some (File c m)) = (node_at w p = Some (File c m))"
  unfolding only_adds_dirs_def adds_dirs_def by (metis node.distinct(1) option.distinct(1) option.inject)

section \<open>Effects of the operations on the node map\<close>

lemma splitext_ext_no_sep: "CHR ''/'' \<notin> set (snd (splitext p))"
proof -
  have n: "CHR ''/'' \<notin> set (snd (rfind_split p))"
    by (auto simp: rfind_split_def dest: set_takeWhileD)
  have "set (rev (takeWhile (\<lambda>c. c \<noteq> CHR ''.'') (rev (snd (rfind_split p))))) \<subseteq> set (snd (rfind_split p))"
    by (auto dest: set_takeWhileD)
  with n show ?thesis by (auto simp: splitext_def Let_def)
qed

lemma str_nat_last: "str_nat k \<noteq> [] \<and> last (str_nat k) = digit_char (k mod 10)"
  by (subst (1 2) str_nat.simps) simp

lemma digit_char_no_sep: "d < 10 \<Longrightarrow> digit_char d \<noteq> CHR ''/''"
proof -
  assume "d < 10"
  then have "d \<in> {0,1,2,3,4,5,6,7,8,9}" by auto
  then show ?thesis by (auto simp: digit_char_def)
qed

lemma candidate_basename: "basename (candidate (fst (splitext dst)) (snd (splitext dst)) k) \<noteq> []"
proof (rule basename_nonempty)
  let ?ext = "snd (splitext dst)"
  show "candidate (fst (splitext dst)) ?ext k \<noteq> []" by (simp add: candidate_def)
  show "last (candidate (fst (splitext dst)) ?ext k) \<noteq> CHR ''/''"
  proof (cases "?ext = []")
    case True
    then show ?thesis using str_nat_last [of k] digit_char_no_sep [of "k mod 10"]
      by (simp add: candidate_def)
  next
    case False
    then have "last ?ext \<in> set ?ext" by simp
    then have "last ?ext \<noteq> CHR ''/''" using splitext_ext_no_sep [of dst] by metis
    then show ?thesis using False by (simp add: candidate_def)
  qed
qed

lemma os_remove_effect:
  "os_remove w p = Inr w' \<Longrightarrow>
     (\<exists>c m. node_at w p = Some (File c m)) \<and> node_at w' = (node_at w)(p := None)
     \<and> denied w' = denied w \<and> now_iso w' = now_iso w \<and> now_ym w' = now_ym w"
  by (auto simp: os_remove_def split: option.splits node.splits if_splits)

lemma os_rename_file_effect:
  "os_rename w src dst = Inr w' \<Longrightarrow> node_at w src = Some (File c m) \<Longrightarrow>
     node_at w' = (node_at w)(src := None, dst \<mapsto> File c m)
     \<and> \<not> isdir w dst \<and> isdir w (dirname dst)
     \<and> src \<notin> set (denied w) \<and> dst \<notin> set (denied w)
     \<and> denied w' = denied w \<and> now_iso w' = now_iso w \<and> now_ym w' = now_ym w"
  by (auto simp: os_rename_def node_at_def update_conv' delete_conv' fun_eq_iff split: if_splits)

lemma os_rename_missing: "node_at w src = None \<Longrightarrow> os_rename w src dst = Inl FileNotFoundError"
  by (simp add: os_rename_def)

lemma shutil_move_missing: "node_at w src = None \<Longrightarrow> \<exists>e. shutil_move w src dst = Inl e"
  by (auto simp: shutil_move_def os_rename_missing isdir_def path_exists_def)

lemma shutil_move_file_effect:
  assumes "shutil_move w src dst = Inr w'" and "node_at w src = Some (File c m)"
  shows "\<exists>t. node_at w' = (node_at w)(src := None, t \<mapsto> File c m)
           \<and> (if isdir w dst then t = join dst (shutil_basename src) \<and> node_at w t = None else t = dst)
           \<and> isdir w (dirname t)
           \<and> src \<notin> set (denied w) \<and> t \<notin> set (denied w)
           \<and> denied w' = denied w \<and> now_iso w' = now_iso w \<and> now_ym w' = now_ym w"
proof (cases "isdir w dst")
  case False
  then have "os_rename w src dst = Inr w'" using assms(1) by (simp add: shutil_move_def)
  from os_rename_file_effect [OF this assms(2)] False show ?thesis by auto
next
  case True
  then have "src \<noteq> dst" using assms(2) by (auto simp: isdir_def)
  with True assms(1) have ne: "\<not> path_exists w (join dst (shutil_basename src))"
    and rn: "os_rename w src (join dst (shutil_basename src)) = Inr w'"
    by (auto simp: shutil_move_def split: if_splits)
  from os_rename_file_effect [OF rn assms(2)] ne True show ?thesis
    by (auto simp: path_exists_def)
qed

lemma plain_last: "plain f \<Longrightarrow> last f \<noteq> CHR ''/''"
  by (metis last_in_set plain_def)

lemma rstrip_sep_id: "p \<noteq> [] \<Longrightarrow> last p \<noteq> CHR ''/'' \<Longrightarrow> rstrip_sep p = p"
proof -
  assume "p \<noteq> []" "last p \<noteq> CHR ''/''"
  then have "rev p \<noteq> []" "hd (rev p) \<noteq> CHR ''/''" by (simp_all add: hd_rev)
  then obtain x rp where "rev p = x # rp" "x \<noteq> CHR ''/''" by (cases "rev p") auto
  then have "dropWhile (\<lambda>c. c = CHR ''/'') (rev p) = rev p" by simp
  then show ?thesis by (simp add: rstrip_sep_def)
qed

lemma shutil_basename_join: "plain f \<Longrightarrow> shutil_basename (join d f) = f"
proof -
  assume pl: "plain f"
  then have j: "join d f = dir_prefix d @ f" by (rule join_plain)
  have "f \<noteq> []" using pl by (simp add: plain_def)
  then have "last (dir_prefix d @ f) \<noteq> CHR ''/''" using plain_last [OF pl] by simp
  then have "rstrip_sep (join d f) = join d f"
    using j \<open>f \<noteq> []\<close> by (simp add: rstrip_sep_id)
  then show ?thesis using pl by (simp add: shutil_basename_def basename_join)
qed

lemma rename_loop_spec:
  "path_exists w d \<Longrightarrow>
     \<exists>k\<ge>c. rename_loop w base ext d c = candidate base ext k
           \<and> \<not> path_exists w (candidate base ext k)
           \<and> (\<forall>j. c \<le> j \<and> j < k \<longrightarrow> path_exists w (candidate base ext j))"
proof (induction w base ext d c rule: rename_loop.induct)
  case (1 w base ext d c)
  have step: "rename_loop w base ext d c = rename_loop w base ext (candidate base ext c) (c + 1)"
    using "1.prems" by (subst rename_loop.simps) simp
  show ?case
  proof (cases "path_exists w (candidate base ext c)")
    case False
    then have "rename_loop w base ext (candidate base ext c) (c + 1) = candidate base ext c"
      by (subst rename_loop.simps) simp
    with step False show ?thesis by (intro exI [of _ c]) auto
  next
    case True
    from "1.IH" [OF "1.prems" True] obtain k where k: "c + 1 \<le> k"
      "rename_loop w base ext (candidate base ext c) (c + 1) = candidate base ext k"
      "\<not> path_exists w (candidate base ext k)"
      "\<forall>j. c + 1 \<le> j \<and> j < k \<longrightarrow> path_exists w (candidate base ext j)" by blast
    have "\<forall>j. c \<le> j \<and> j < k \<longrightarrow> path_exists w (candidate base ext j)"
    proof (intro allI impI)
      fix j assume "c \<le> j \<and> j < k"
      then show "path_exists w (candidate base ext j)" using True k(4) by (cases "j = c") auto
    qed
    with k step show ?thesis by (intro exI [of _ k]) simp
  qed
qed

lemma handle_duplicate_cases:
  assumes "handle_duplicate w sp dp strat = (r, w1)"
  shows "(\<not> path_exists w dp \<and> r = Inr (Some dp) \<and> w1 = w)
       \<or> (path_exists w dp \<and> strat = ''skip'' \<and> r = Inr None \<and> w1 = w)
       \<or> (path_exists w dp \<and> strat = ''replace'' \<and> (\<exists>e. os_remove w dp = Inl e \<and> r = Inl e) \<and> w1 = w)
       \<or> (path_exists w dp \<and> strat = ''replace'' \<and> os_remove w dp = Inr w1 \<and> r = Inr (Some dp))
       \<or> (path_exists w dp \<and> strat = ''rename'' \<and> w1 = w
            \<and> (\<exists>k\<ge>1. r = Inr (Some (candidate (fst (splitext dp)) (snd (splitext dp)) k))
                     \<and> \<not> path_exists w (candidate (fst (splitext dp)) (snd (splitext dp)) k)))
       \<or> (path_exists w dp \<and> strat \<notin> {''skip'', ''replace'', ''rename''} \<and> r = Inr (Some dp) \<and> w1 = w)"
proof (cases "path_exists w dp")
  case False
  then show ?thesis using assms by (simp add: handle_duplicate_def)
next
  case True
  consider (skip) "strat = ''skip''" | (replace) "strat = ''replace''" | (rename) "strat = ''rename''"
    | (other) "strat \<notin> {''skip'', ''replace'', ''rename''}" by blast
  then show ?thesis
  proof cases
    case skip
    then show ?thesis using True assms by (simp add: handle_duplicate_def)
  next
    case replace
    then show ?thesis using True assms
      by (cases "os_remove w dp") (auto simp: handle_duplicate_def)
  next
    case rename
    from rename_loop_spec [OF True, of 1 "fst (splitext dp)" "snd (splitext dp)"]
    obtain k where "1 \<le> k"
      "rename_loop w (fst (splitext dp)) (snd (splitext dp)) dp 1 = candidate (fst (splitext dp)) (snd (splitext dp)) k"
      "\<not> path_exists w (candidate (fst (splitext dp)) (snd (splitext dp)) k)" by blast
    then show ?thesis using rename True assms by (auto simp: handle_duplicate_def)
  next
    case other
    then show ?thesis using True assms by (auto simp: handle_duplicate_def)
  qed
qed

lemma handle_duplicate_frame:
  assumes "handle_duplicate w sp dp strat = (r, w1)"
  shows "denied w1 = denied w \<and> now_iso w1 = now_iso w \<and> now_ym w1 = now_ym w
     \<and> (\<forall>q. q \<noteq> dp \<longrightarrow> node_at w1 q = node_at w q)
     \<and> (node_at w1 dp = node_at w dp \<or> (node_at w1 dp = None \<and> strat = ''replace''
            \<and> r = Inr (Some dp) \<and> (\<exists>c m. node_at w dp = Some (File c m))))
     \<and> (\<forall>t. r = Inr (Some t) \<longrightarrow>
            t = dp \<or> (w1 = w \<and> \<not> path_exists w t \<and> strat = ''rename''
                       \<and> (\<exists>k. t = candidate (fst (splitext dp)) (snd (splitext dp)) k)))"
  using handle_duplicate_cases [OF assms] os_remove_effect [of w dp w1]
  by (elim disjE) auto

lemma execute_move_cases:
  assumes "execute_move sp t f cat acc w1 = (acc', w3)"
  shows "\<exists>r2 w2. makedirs w1 (dirname t) True = (r2, w2) \<and>
           ((w3 = w2 \<and> acc' = (fst acc\<lparr>errors := errors (fst acc) + 1\<rparr>, snd acc)
               \<and> (r2 \<noteq> None \<or> (\<exists>e. shutil_move w2 sp t = Inl e)))
            \<or> (r2 = None \<and> shutil_move w2 sp t = Inr w3
                \<and> acc' = (fst acc\<lparr>moved := moved (fst acc) + 1\<rparr>,
                          snd acc @ [\<lparr>timestamp = now_iso w3, source = sp, destination = t,
                                      filename = f, category = cat\<rparr>])))"
proof -
  obtain r2 w2 where mk: "makedirs w1 (dirname t) True = (r2, w2)"
    by (cases "makedirs w1 (dirname t) True") auto
  show ?thesis
  proof (cases r2)
    case (Some e)
    then show ?thesis using assms mk by (auto simp: execute_move_def)
  next
    case None
    then show ?thesis using assms mk
      by (cases "shutil_move w2 sp t") (auto simp: execute_move_def)
  qed
qed

text \<open>
  The loop body either leaves the world alone, or it has found a category and a
  destination directory and has asked the resolver, which answered with a path.
\<close>

lemma handle_duplicate_no_path:
  assumes "handle_duplicate w sp dp strat = (e, w1)" and "\<forall>t. e \<noteq> Inr (Some t)"
  shows "w1 = w"
  using handle_duplicate_cases [OF assms(1)] assms(2) by auto

lemma sort_entry_cases:
  assumes "sort_entry s dry strat bd f acc w = (r, w')"
  shows "(w' = w \<and> (r = Inr acc \<or> r = Inr (fst acc\<lparr>skipped := skipped (fst acc) + 1\<rparr>, snd acc)
                    \<or> (\<exists>x. r = Inl x)))
       \<or> (\<exists>cat dd t w1. \<not> isdir w (join (source_dir s) f) \<and> f \<noteq> basename (history_file s)
             \<and> cat \<noteq> []
             \<and> handle_duplicate w (join (source_dir s) f) (join dd f) strat = (Inr (Some t), w1)
             \<and> ((dry \<and> w' = w1 \<and> r = Inr (fst acc\<lparr>moved := moved (fst acc) + 1\<rparr>, snd acc))
                \<or> (\<not> dry \<and> (\<exists>acc'. execute_move (join (source_dir s) f) t f cat acc w1 = (acc', w')
                                     \<and> r = Inr acc'))))"
proof (cases "isdir w (join (source_dir s) f) \<or> f = basename (history_file s)")
  case True
  then show ?thesis using assms by (auto simp: sort_entry_def)
next
  case nd: False
  show ?thesis
  proof (cases "get_category_for_extension (config s) (lower (snd (splitext f)))")
    case None
    then show ?thesis using assms nd by (auto simp: sort_entry_def)
  next
    case (Some cat)
    show ?thesis
    proof (cases "cat = []")
      case True
      then show ?thesis using assms nd Some by (auto simp: sort_entry_def)
    next
      case ne: False
      show ?thesis
      proof (cases "dest_dir_of s bd w (join (source_dir s) f) cat")
        case (Inl x)
        then show ?thesis using assms nd Some ne by (auto simp: sort_entry_def)
      next
        case (Inr dd)
        obtain e w1 where hd: "handle_duplicate w (join (source_dir s) f) (join dd f) strat = (e, w1)"
          by (cases "handle_duplicate w (join (source_dir s) f) (join dd f) strat") auto
        have se: "sort_entry s dry strat bd f acc w =
            (case (e, w1) of
               (Inl x, w1) \<Rightarrow> (Inl x, w1)
             | (Inr None, w1) \<Rightarrow> (Inr (fst acc\<lparr>skipped := skipped (fst acc) + 1\<rparr>, snd acc), w1)
             | (Inr (Some final_dest), w1) \<Rightarrow>
                 if dry then (Inr (fst acc\<lparr>moved := moved (fst acc) + 1\<rparr>, snd acc), w1)
                 else (case execute_move (join (source_dir s) f) final_dest f cat acc w1 of
                         (acc', w2) \<Rightarrow> (Inr acc', w2)))"
          using nd Some ne Inr hd by (simp add: sort_entry_def)
        show ?thesis
        proof (cases e)
          case (Inl x)
          then have "w1 = w" using handle_duplicate_no_path [OF hd] by simp
          moreover have "w' = w1 \<and> r = Inl x" using assms se Inl by simp
          ultimately show ?thesis by blast
        next
          case ir: (Inr o1)
          show ?thesis
          proof (cases o1)
            case None
            then have "w1 = w" using handle_duplicate_no_path [OF hd] ir by simp
            moreover have "w' = w1 \<and> r = Inr (fst acc\<lparr>skipped := skipped (fst acc) + 1\<rparr>, snd acc)"
              using assms se ir None by simp
            ultimately show ?thesis by blast
          next
            case (Some t)
            have hd': "handle_duplicate w (join (source_dir s) f) (join dd f) strat = (Inr (Some t), w1)"
              using hd ir Some by simp
            show ?thesis
            proof (cases dry)
              case True
              then have "w' = w1 \<and> r = Inr (fst acc\<lparr>moved := moved (fst acc) + 1\<rparr>, snd acc)"
                using assms se ir Some by auto
              then show ?thesis using nd ne hd' True by blast
            next
              case False
              obtain acc' w2 where em: "execute_move (join (source_dir s) f) t f cat acc w1 = (acc', w2)"
                by (cases "execute_move (join (source_dir s) f) t f cat acc w1") auto
              then have "w' = w2 \<and> r = Inr acc'" using assms se ir Some False by auto
              then show ?thesis using nd ne hd' False em by blast
            qed
          qed
        qed
      qed
    qed
  qed
qed

text \<open>
  When the resolver has answered \<open>t\<close> for a source that is a regular file, and the
  directories above \<open>t\<close> have been made, the source is still that file or, after a
  replacement of the source by itself, gone; \<open>t\<close> itself has not been made a directory.
\<close>

lemma before_move:
  assumes hd: "handle_duplicate w sp (join dd f) strat = (Inr (Some t), w1)"
    and mk: "makedirs w1 (dirname t) True = (r2, w2)"
    and pl: "plain f"
    and sp: "node_at w sp = Some (File c m)"
  shows "node_at w2 sp = Some (File c m) \<or> node_at w2 sp = None"
    and "node_at w2 t = node_at w1 t"
    and "\<forall>q. node_at w1 q \<noteq> None \<longrightarrow> node_at w2 q = node_at w1 q"
    and "\<forall>q. node_at w2 q = node_at w1 q \<or> (node_at w1 q = None \<and> node_at w2 q = Some Dir)"
    and "denied w2 = denied w \<and> now_iso w2 = now_iso w \<and> now_ym w2 = now_ym w"
    and "basename t \<noteq> []"
proof -
  note fr = handle_duplicate_frame [OF hd]
  have ad: "adds_dirs (length (dirname t)) w1 w2" using mk by (rule makedirs_adds)
  have bt: "basename t \<noteq> []"
  proof -
    from fr have "t = join dd f \<or> (\<exists>k. t = candidate (fst (splitext (join dd f))) (snd (splitext (join dd f))) k)"
      by blast
    then show ?thesis using basename_join [OF pl, of dd] pl candidate_basename
      by (auto simp: plain_def)
  qed
  then have short: "length (dirname t) < length t" by (rule dirname_shorter)
  have t_same: "node_at w2 t = node_at w1 t"
    using ad short unfolding adds_dirs_def by (metis not_le)
  have sp1: "node_at w1 sp = Some (File c m) \<or> (node_at w1 sp = None \<and> sp = t)"
    using fr sp by (metis option.distinct(1))
  have sp2: "node_at w2 sp = Some (File c m) \<or> node_at w2 sp = None"
  proof -
    from sp1 show ?thesis
    proof
      assume "node_at w1 sp = Some (File c m)"
      then show ?thesis using ad unfolding adds_dirs_def by (metis option.distinct(1))
    next
      assume "node_at w1 sp = None \<and> sp = t"
      then show ?thesis using t_same by auto
    qed
  qed
  have ex: "\<forall>q. node_at w1 q \<noteq> None \<longrightarrow> node_at w2 q = node_at w1 q"
    using ad unfolding adds_dirs_def by metis
  have gr: "\<forall>q. node_at w2 q = node_at w1 q \<or> (node_at w1 q = None \<and> node_at w2 q = Some Dir)"
    using ad unfolding adds_dirs_def by metis
  have dn: "denied w2 = denied w \<and> now_iso w2 = now_iso w \<and> now_ym w2 = now_ym w"
    using ad fr unfolding adds_dirs_def by simp
  show "node_at w2 sp = Some (File c m) \<or> node_at w2 sp = None" by (rule sp2)
  show "node_at w2 t = node_at w1 t" by (rule t_same)
  show "\<forall>q. node_at w1 q \<noteq> None \<longrightarrow> node_at w2 q = node_at w1 q" by (rule ex)
  show "\<forall>q. node_at w2 q = node_at w1 q \<or> (node_at w1 q = None \<and> node_at w2 q = Some Dir)" by (rule gr)
  show "denied w2 = denied w \<and> now_iso w2 = now_iso w \<and> now_ym w2 = now_ym w" by (rule dn)
  show "basename t \<noteq> []" by (rule bt)
qed

lemma file_or_dir:
  "path_exists w p \<Longrightarrow> \<not> isdir w p \<Longrightarrow> \<exists>c m. node_at w p = Some (File c m)"
proof -
  assume "path_exists w p" "\<not> isdir w p"
  then obtain n where n: "node_at w p = Some n" "n \<noteq> Dir"
    by (auto simp: path_exists_def isdir_def)
  then show ?thesis by (cases n) auto
qed

text \<open>
  Whatever the policy and the mode: the loop body for the entry \<open>f\<close> changes no existing
  node whose last component is not \<open>f\<close>.
\<close>

lemma sort_entry_keeps:
  assumes se: "sort_entry s dry strat bd f acc w = (r, w')"
    and pl: "plain f"
    and ex: "path_exists w (join (source_dir s) f)"
  shows "denied w' = denied w
     \<and> (\<forall>q n. node_at w q = Some n \<and> basename q \<noteq> f \<longrightarrow> node_at w' q = Some n)"
proof -
  let ?sp = "join (source_dir s) f"
  from sort_entry_cases [OF se] show ?thesis
  proof
    assume "w' = w \<and> (r = Inr acc \<or> r = Inr (fst acc\<lparr>skipped := skipped (fst acc) + 1\<rparr>, snd acc)
                    \<or> (\<exists>x. r = Inl x))"
    then show ?thesis by simp
  next
    assume "\<exists>cat dd t w1. \<not> isdir w ?sp \<and> f \<noteq> basename (history_file s) \<and> cat \<noteq> []
             \<and> handle_duplicate w ?sp (join dd f) strat = (Inr (Some t), w1)
             \<and> ((dry \<and> w' = w1 \<and> r = Inr (fst acc\<lparr>moved := moved (fst acc) + 1\<rparr>, snd acc))
                \<or> (\<not> dry \<and> (\<exists>acc'. execute_move ?sp t f cat acc w1 = (acc', w') \<and> r = Inr acc')))"
    then obtain cat dd t w1 where nd: "\<not> isdir w ?sp"
      and hd: "handle_duplicate w ?sp (join dd f) strat = (Inr (Some t), w1)"
      and rest: "(dry \<and> w' = w1) \<or> (\<not> dry \<and> (\<exists>acc'. execute_move ?sp t f cat acc w1 = (acc', w')))"
      by blast
    from file_or_dir [OF ex nd] obtain c m where sp: "node_at w ?sp = Some (File c m)" by blast
    note fr = handle_duplicate_frame [OF hd]
    have bdp: "basename (join dd f) = f" using pl by (rule basename_join)
    have bsp: "basename ?sp = f" using pl by (rule basename_join)
    have k1: "node_at w1 q = Some n" if "node_at w q = Some n" "basename q \<noteq> f" for q n
    proof -
      have "q \<noteq> join dd f" using that(2) bdp by auto
      then show ?thesis using fr that(1) by simp
    qed
    from rest show ?thesis
    proof
      assume "dry \<and> w' = w1"
      then show ?thesis using fr k1 by simp
    next
      assume "\<not> dry \<and> (\<exists>acc'. execute_move ?sp t f cat acc w1 = (acc', w'))"
      then obtain acc' where em: "execute_move ?sp t f cat acc w1 = (acc', w')" by blast
      from execute_move_cases [OF em] obtain r2 w2 where
        mk: "makedirs w1 (dirname t) True = (r2, w2)"
        and mv: "w' = w2 \<or> shutil_move w2 ?sp t = Inr w'" by blast
      note bm = before_move [OF hd mk pl sp]
      have k2: "node_at w2 q = Some n" if "node_at w q = Some n" "basename q \<noteq> f" for q n
        using k1 [OF that] bm(3) by simp
      from mv show ?thesis
      proof
        assume "w' = w2"
        then show ?thesis using bm(5) k2 by simp
      next
        assume sm: "shutil_move w2 ?sp t = Inr w'"
        have "node_at w2 ?sp \<noteq> None" using shutil_move_missing [of w2 ?sp t] sm by auto
        then have sp2: "node_at w2 ?sp = Some (File c m)" using bm(1) by auto
        from shutil_move_file_effect [OF sm sp2] obtain t' where
          eff: "node_at w' = (node_at w2)(?sp := None, t' \<mapsto> File c m)"
          and tt: "if isdir w2 t then t' = join t (shutil_basename ?sp) \<and> node_at w2 t' = None else t' = t"
          and dn: "denied w' = denied w2" by blast
        have k3: "node_at w' q = Some n" if a: "node_at w q = Some n" and b: "basename q \<noteq> f" for q n
        proof -
          have q1: "q \<noteq> ?sp" using b bsp by auto
          have q2: "q \<noteq> t'"
          proof (cases "isdir w2 t")
            case True
            then have "t' = join t f" using tt shutil_basename_join [OF pl, of "source_dir s"] by simp
            then have "basename t' = f" using basename_join [OF pl, of t] by simp
            then show ?thesis using b by auto
          next
            case False
            then have "t' = t" using tt by simp
            moreover have "t = join dd f \<or> \<not> path_exists w t" using fr by blast
            ultimately show ?thesis using a b bdp by (auto simp: path_exists_def)
          qed
          show ?thesis using eff q1 q2 k2 [OF a b] by simp
        qed
        show ?thesis using k3 dn bm(5) by simp
      qed
    qed
  qed
qed

text \<open>
  The loop as a whole: the entry named like the history file is passed over, and an
  existing node is untouched when no other entry of the listing has its last component.
\<close>

lemma sort_entry_history_name:
  "sort_entry s dry strat bd (basename (history_file s)) acc w = (Inr acc, w)"
  by (simp add: sort_entry_def)

lemma sort_loop_history_name:
  "sort_loop s dry strat bd items acc w
     = sort_loop s dry strat bd (filter (\<lambda>f. f \<noteq> basename (history_file s)) items) acc w"
  by (induction items arbitrary: acc w) (auto simp: sort_entry_history_name split: prod.splits sum.splits)

lemma sort_loop_keeps:
  assumes "sort_loop s dry strat bd items acc w = (r, w')"
    and "distinct items"
    and "\<forall>f \<in> set items. plain f \<and> path_exists w (join (source_dir s) f)"
    and "node_at w q = Some n"
    and "basename q \<notin> set (filter (\<lambda>f. f \<noteq> basename (history_file s)) items)"
  shows "node_at w' q = Some n"
  using assms
proof (induction items arbitrary: acc w)
  case Nil
  then show ?case by simp
next
  case (Cons f fs)
  obtain r1 w1 where se: "sort_entry s dry strat bd f acc w = (r1, w1)"
    by (cases "sort_entry s dry strat bd f acc w") auto
  have pl: "plain f" and ex: "path_exists w (join (source_dir s) f)" using Cons.prems(3) by auto
  have keep: "node_at w1 p = Some k" if "node_at w p = Some k" "basename p \<noteq> f \<or> f = basename (history_file s)" for p k
  proof (cases "f = basename (history_file s)")
    case True
    then have "w1 = w" using se by (simp add: sort_entry_history_name)
    then show ?thesis using that by simp
  next
    case False
    then show ?thesis using sort_entry_keeps [OF se pl ex] that by blast
  qed
  show ?case
  proof (cases r1)
    case (Inl e)
    then have "w' = w1" using Cons.prems(1) se by simp
    moreover have "basename q \<noteq> f \<or> f = basename (history_file s)"
      using Cons.prems(5) by (auto split: if_splits)
    ultimately show ?thesis using keep Cons.prems(4) by blast
  next
    case (Inr acc1)
    then have lp: "sort_loop s dry strat bd fs acc1 w1 = (r, w')" using Cons.prems(1) se by simp
    have d: "distinct fs" using Cons.prems(2) by simp
    have e: "\<forall>g \<in> set fs. plain g \<and> path_exists w1 (join (source_dir s) g)"
    proof
      fix g assume g: "g \<in> set fs"
      then have pg: "plain g" and eg: "path_exists w (join (source_dir s) g)" using Cons.prems(3) by auto
      have "g \<noteq> f" using g Cons.prems(2) by auto
      then have "basename (join (source_dir s) g) \<noteq> f" using basename_join [OF pg] by simp
      moreover obtain k where "node_at w (join (source_dir s) g) = Some k"
        using eg by (auto simp: path_exists_def)
      ultimately have "node_at w1 (join (source_dir s) g) = Some k" using keep by blast
      then show "plain g \<and> path_exists w1 (join (source_dir s) g)" using pg by (simp add: path_exists_def)
    qed
    have q1: "node_at w1 q = Some n"
    proof -
      have "basename q \<noteq> f \<or> f = basename (history_file s)"
        using Cons.prems(5) by (auto split: if_splits)
      then show ?thesis using keep Cons.prems(4) by blast
    qed
    have q2: "basename q \<notin> set (filter (\<lambda>f. f \<noteq> basename (history_file s)) fs)"
      using Cons.prems(5) by (auto split: if_splits)
    from Cons.IH [OF lp d e q1 q2] show ?thesis .
  qed
qed

lemma only_adds_dirs_keeps: "only_adds_dirs w w' \<Longrightarrow> node_at w q = Some n \<Longrightarrow> node_at w' q = Some n"
  unfolding only_adds_dirs_def adds_dirs_def by (metis option.distinct(1))

lemma save_history_effect:
  "node_at (save_history dump s w) q = node_at w q
   \<or> (q = history_file s \<and> \<not> isdir w q \<and> (\<exists>c m. node_at (save_history dump s w) q = Some (File c m)))"
  by (auto simp: save_history_def write_file_def split: sum.splits if_splits)

lemma save_history_denied: "denied (save_history dump s w) = denied w"
  by (auto simp: save_history_def write_file_def split: sum.splits if_splits)

text \<open>
  A real pass under a documented policy, on an entry that is a regular file, without a new
  error: either nothing happened to the world and nothing was recorded, or the file went
  to a path \<open>d\<close> where nothing was left, and exactly that was recorded.
\<close>

lemma sort_entry_moves:
  assumes se: "sort_entry s False strat bd f acc w = (Inr acc', w')"
    and pl: "plain f"
    and sp: "node_at w (join (source_dir s) f) = Some (File c m)"
    and st: "strat \<in> {''skip'', ''rename'', ''replace''}"
    and ne: "errors (fst acc') = errors (fst acc)"
  shows "(w' = w \<and> snd acc' = snd acc \<and> moved (fst acc') = moved (fst acc))
     \<or> (\<exists>d cat. snd acc' = snd acc @ [\<lparr>timestamp = now_iso w', source = join (source_dir s) f,
                                        destination = d, filename = f, category = cat\<rparr>]
          \<and> moved (fst acc') = moved (fst acc) + 1
          \<and> f \<noteq> basename (history_file s)
          \<and> d \<noteq> join (source_dir s) f
          \<and> node_at w' (join (source_dir s) f) = None
          \<and> node_at w' d = Some (File c m)
          \<and> (node_at w d = None \<or> (strat = ''replace'' \<and> (\<exists>c' m'. node_at w d = Some (File c' m'))))
          \<and> (strat = ''replace'' \<longrightarrow> basename d = f)
          \<and> (\<forall>q. q \<noteq> join (source_dir s) f \<and> q \<noteq> d \<longrightarrow>
                 node_at w' q = node_at w q \<or> (node_at w q = None \<and> node_at w' q = Some Dir))
          \<and> denied w' = denied w
          \<and> join (source_dir s) f \<notin> set (denied w) \<and> d \<notin> set (denied w))"
proof -
  let ?sp = "join (source_dir s) f"
  from sort_entry_cases [OF se] show ?thesis
  proof
    assume "w' = w \<and> (Inr acc' = Inr acc \<or> Inr acc' = Inr (fst acc\<lparr>skipped := skipped (fst acc) + 1\<rparr>, snd acc)
                    \<or> (\<exists>x. Inr acc' = Inl x))"
    then have "w' = w \<and> snd acc' = snd acc \<and> moved (fst acc') = moved (fst acc)" by auto
    then show ?thesis by blast
  next
    assume "\<exists>cat dd t w1. \<not> isdir w ?sp \<and> f \<noteq> basename (history_file s) \<and> cat \<noteq> []
             \<and> handle_duplicate w ?sp (join dd f) strat = (Inr (Some t), w1)
             \<and> ((False \<and> w' = w1 \<and> Inr acc' = Inr (fst acc\<lparr>moved := moved (fst acc) + 1\<rparr>, snd acc))
                \<or> (\<not> False \<and> (\<exists>acc''. execute_move ?sp t f cat acc w1 = (acc'', w') \<and> Inr acc' = Inr acc'')))"
    then obtain cat dd t w1 where nh: "f \<noteq> basename (history_file s)"
      and hd: "handle_duplicate w ?sp (join dd f) strat = (Inr (Some t), w1)"
      and em: "execute_move ?sp t f cat acc w1 = (acc', w')"
      by auto
    from execute_move_cases [OF em] ne obtain r2 w2 where
      mk: "makedirs w1 (dirname t) True = (r2, w2)"
      and sm: "shutil_move w2 ?sp t = Inr w'"
      and ac: "acc' = (fst acc\<lparr>moved := moved (fst acc) + 1\<rparr>,
                      snd acc @ [\<lparr>timestamp = now_iso w', source = ?sp, destination = t,
                                  filename = f, category = cat\<rparr>])"
      by auto
    note bm = before_move [OF hd mk pl sp]
    note fr = handle_duplicate_frame [OF hd]
    have bdp: "basename (join dd f) = f" using pl by (rule basename_join)
    \<comment> \<open>under a documented policy nothing is left at the answer of the resolver\<close>
    have t1: "node_at w1 t = None"
      and tw: "node_at w t = None \<or> (strat = ''replace'' \<and> (\<exists>c' m'. node_at w t = Some (File c' m')))"
      and tr: "strat = ''replace'' \<longrightarrow> t = join dd f"
      and w1w: "\<forall>q. q \<noteq> t \<longrightarrow> node_at w1 q = node_at w q"
      using handle_duplicate_cases [OF hd] st os_remove_effect [of w "join dd f" w1]
      by (auto simp: path_exists_def)
    have t2: "node_at w2 t = None" using bm(2) t1 by simp
    have "node_at w2 ?sp \<noteq> None" using shutil_move_missing [of w2 ?sp t] sm by auto
    then have sp2: "node_at w2 ?sp = Some (File c m)" using bm(1) by auto
    have dsp: "t \<noteq> ?sp" using sp2 t2 by auto
    have nd: "\<not> isdir w2 t" using t2 by (simp add: isdir_def)
    from shutil_move_file_effect [OF sm sp2] nd have
      eff: "node_at w' = (node_at w2)(?sp := None, t \<mapsto> File c m)"
      and dn: "?sp \<notin> set (denied w2)" "t \<notin> set (denied w2)" "denied w' = denied w2"
      by auto
    have fr2: "node_at w' q = node_at w q \<or> (node_at w q = None \<and> node_at w' q = Some Dir)"
      if "q \<noteq> ?sp" "q \<noteq> t" for q
    proof -
      have "node_at w' q = node_at w2 q" using eff that by simp
      moreover have "node_at w1 q = node_at w q" using w1w that by simp
      ultimately show ?thesis using bm(4) by metis
    qed
    have "snd acc' = snd acc @ [\<lparr>timestamp = now_iso w', source = ?sp,
                                        destination = t, filename = f, category = cat\<rparr>]
          \<and> moved (fst acc') = moved (fst acc) + 1
          \<and> f \<noteq> basename (history_file s)
          \<and> t \<noteq> ?sp
          \<and> node_at w' ?sp = None
          \<and> node_at w' t = Some (File c m)
          \<and> (node_at w t = None \<or> (strat = ''replace'' \<and> (\<exists>c' m'. node_at w t = Some (File c' m'))))
          \<and> (strat = ''replace'' \<longrightarrow> basename t = f)
          \<and> (\<forall>q. q \<noteq> ?sp \<and> q \<noteq> t \<longrightarrow>
                 node_at w' q = node_at w q \<or> (node_at w q = None \<and> node_at w' q = Some Dir))
          \<and> denied w' = denied w
          \<and> ?sp \<notin> set (denied w) \<and> t \<notin> set (denied w)"
      using ac nh dsp eff tw tr bdp fr2 dn bm(5) by auto
    then show ?thesis by blast
  qed
qed

section \<open>The duplicate resolver\<close>

text \<open>
  Claim C4. Under policy \<open>rename\<close>, when something exists at the candidate destination
  \<open>base @ ext\<close>, the resolver returns \<open>base_k ext\<close> for the first \<open>k \<ge> 1\<close> at which nothing
  exists: the returned path did not exist before the call, every earlier candidate did,
  and the resolver itself leaves the file system as it was.
\<close>

theorem C4_rename_first_free:
  assumes "path_exists w dst" and "splitext dst = (base, ext)"
  shows "base @ ext = dst
     \<and> (\<exists>k\<ge>1. handle_duplicate w src dst ''rename'' = (Inr (Some (base @ ''_'' @ str_nat k @ ext)), w)
              \<and> \<not> path_exists w (base @ ''_'' @ str_nat k @ ext)
              \<and> (\<forall>j. 1 \<le> j \<and> j < k \<longrightarrow> path_exists w (base @ ''_'' @ str_nat j @ ext)))"
proof -
  have "base @ ext = dst" using splitext_append [of dst] assms(2) by simp
  moreover have "handle_duplicate w src dst ''rename'' = (Inr (Some (rename_loop w base ext dst 1)), w)"
    using assms by (simp add: handle_duplicate_def)
  ultimately show ?thesis using rename_loop_spec [OF assms(1), of 1 base ext]
    by (simp add: candidate_def)
qed

text \<open>
  Witness for C4: \<open>a.mp4\<close> and \<open>a_1.mp4\<close> are taken in \<open>/src/Videos\<close>, so the resolver
  answers \<open>a_2.mp4\<close>.
\<close>

theorem C4_witness:
  "path_exists wC ''/src/Videos/a.mp4''
   \<and> splitext ''/src/Videos/a.mp4'' = (''/src/Videos/a'', ''.mp4'')
   \<and> handle_duplicate wC ''/src/a.mp4'' ''/src/Videos/a.mp4'' ''rename'' = (Inr (Some ''/src/Videos/a_2.mp4''), wC)
   \<and> (\<exists>k\<ge>1. handle_duplicate wC ''/src/a.mp4'' ''/src/Videos/a.mp4'' ''rename''
                = (Inr (Some (''/src/Videos/a'' @ ''_'' @ str_nat k @ ''.mp4'')), wC)
            \<and> \<not> path_exists wC (''/src/Videos/a'' @ ''_'' @ str_nat k @ ''.mp4''))"
proof -
  have a: "path_exists wC ''/src/Videos/a.mp4''" by code_simp
  have b: "splitext ''/src/Videos/a.mp4'' = (''/src/Videos/a'', ''.mp4'')" by code_simp
  have c: "handle_duplicate wC ''/src/a.mp4'' ''/src/Videos/a.mp4'' ''rename'' = (Inr (Some ''/src/Videos/a_2.mp4''), wC)"
    by code_simp
  from C4_rename_first_free [OF a b, of "''/src/a.mp4''"] a b c show ?thesis by blast
qed

text \<open>
  Claim C10. For a strategy string other than \<open>skip\<close>, \<open>rename\<close> and \<open>replace\<close>, when
  something exists at the candidate destination, the resolver returns that destination
  unchanged and leaves the file system alone; the loop body of a real pass then runs its
  \<open>try\<close> block (\<open>execute_move\<close>) with the occupied path as the target of the move.
\<close>

theorem C10_unknown_strategy:
  assumes "duplicate_strategy \<notin> {''skip'', ''rename'', ''replace''}" and "path_exists w dst"
  shows "handle_duplicate w src dst duplicate_strategy = (Inr (Some dst), w)
     \<and> (\<not> isdir w (join (source_dir s) fname) \<and> fname \<noteq> basename (history_file s)
          \<and> get_category_for_extension (config s) (lower (snd (splitext fname))) = Some cat \<and> cat \<noteq> []
          \<and> dest_dir_of s by_date w (join (source_dir s) fname) cat = Inr dd
          \<and> dst = join dd fname
        \<longrightarrow> sort_entry s False duplicate_strategy by_date fname acc w
            = (Inr (fst (execute_move (join (source_dir s) fname) dst fname cat acc w)),
               snd (execute_move (join (source_dir s) fname) dst fname cat acc w)))"
proof -
  have h: "handle_duplicate w src' dst duplicate_strategy = (Inr (Some dst), w)" for src'
    using assms by (simp add: handle_duplicate_def)
  show ?thesis using h by (auto simp: sort_entry_def split: prod.splits)
qed


text \<open>
  Witness for C10: with the strategy \<open>overwrite\<close> the new \<open>a.mp4\<close> is moved onto the
  existing \<open>/src/Videos/a.mp4\<close>, whose old content is lost.
\<close>

theorem C10_witness:
  "''overwrite'' \<notin> {''skip'', ''rename'', ''replace''}
   \<and> path_exists wC ''/src/Videos/a.mp4''
   \<and> handle_duplicate wC ''/src/a.mp4'' ''/src/Videos/a.mp4'' ''overwrite''
       = (Inr (Some ''/src/Videos/a.mp4''), wC)
   \<and> sort_entry sC False ''overwrite'' False ''a.mp4'' (zero_stats, []) wC
       = (Inr (\<lparr>moved = 1, skipped = 0, errors = 0\<rparr>,
               [\<lparr>timestamp = ''2026-01-01T00:00:00'', source = ''/src/a.mp4'',
                 destination = ''/src/Videos/a.mp4'', filename = ''a.mp4'', category = ''Videos''\<rparr>]),
          wC\<lparr>tree := [(''/'', Dir), (''/src'', Dir), (''/src/Videos'', Dir),
                       (''/src/Videos/a.mp4'', File ''new'' (2024, 3)),
                       (''/src/Videos/a_1.mp4'', File ''older'' (2022, 1))]\<rparr>)"
proof -
  have a: "''overwrite'' \<notin> {''skip'', ''rename'', ''replace''}" by simp
  have b: "path_exists wC ''/src/Videos/a.mp4''" by code_simp
  have c: "\<not> isdir wC (join (source_dir sC) ''a.mp4'') \<and> ''a.mp4'' \<noteq> basename (history_file sC)
          \<and> get_category_for_extension (config sC) (lower (snd (splitext ''a.mp4''))) = Some ''Videos''
          \<and> ''Videos'' \<noteq> []
          \<and> dest_dir_of sC False wC (join (source_dir sC) ''a.mp4'') ''Videos'' = Inr ''/src/Videos''
          \<and> ''/src/Videos/a.mp4'' = join ''/src/Videos'' ''a.mp4''"
    by code_simp
  have d: "execute_move (join (source_dir sC) ''a.mp4'') ''/src/Videos/a.mp4'' ''a.mp4'' ''Videos'' (zero_stats, []) wC
     = ((\<lparr>moved = 1, skipped = 0, errors = 0\<rparr>,
               [\<lparr>timestamp = ''2026-01-01T00:00:00'', source = ''/src/a.mp4'',
                 destination = ''/src/Videos/a.mp4'', filename = ''a.mp4'', category = ''Videos''\<rparr>]),
          wC\<lparr>tree := [(''/'', Dir), (''/src'', Dir), (''/src/Videos'', Dir),
                       (''/src/Videos/a.mp4'', File ''new'' (2024, 3)),
                       (''/src/Videos/a_1.mp4'', File ''older'' (2022, 1))]\<rparr>)"
    by code_simp
  from C10_unknown_strategy [OF a b, of "''/src/a.mp4''" sC "''a.mp4''" "''Videos''" False "''/src/Videos''" "(zero_stats, [])"]
    a b c d show ?thesis by simp
qed

section \<open>Category lookup\<close>

lemma first_category_None:
  "(first_category e cats = None) = (\<forall>ce \<in> set cats. e \<notin> set (snd ce))"
  by (induction e cats rule: first_category.induct) auto

lemma first_category_first:
  "first_category e cats = Some c \<Longrightarrow>
     \<exists>i < length cats. fst (cats ! i) = c \<and> e \<in> set (snd (cats ! i))
        \<and> (\<forall>j < i. e \<notin> set (snd (cats ! j)))"
proof (induction e cats rule: first_category.induct)
  case (1 e)
  then show ?case by simp
next
  case (2 e cat exts rest)
  show ?case
  proof (cases "e \<in> set exts")
    case True
    then have "c = cat" using 2(2) by simp
    then have "0 < length ((cat, exts) # rest) \<and> fst (((cat, exts) # rest) ! 0) = c
        \<and> e \<in> set (snd (((cat, exts) # rest) ! 0))
        \<and> (\<forall>j < 0. e \<notin> set (snd (((cat, exts) # rest) ! j)))" using True by simp
    then show ?thesis by blast
  next
    case False
    then have "first_category e rest = Some c" using 2(2) by simp
    from 2(1) [OF False this] obtain i where i: "i < length rest" "fst (rest ! i) = c"
      "e \<in> set (snd (rest ! i))" "\<forall>j < i. e \<notin> set (snd (rest ! j))" by blast
    have "\<forall>j < Suc i. e \<notin> set (snd (((cat, exts) # rest) ! j))"
    proof (intro allI impI)
      fix j assume "j < Suc i"
      then show "e \<notin> set (snd (((cat, exts) # rest) ! j))"
        using False i(4) by (cases j) auto
    qed
    then have "Suc i < length ((cat, exts) # rest) \<and> fst (((cat, exts) # rest) ! Suc i) = c
        \<and> e \<in> set (snd (((cat, exts) # rest) ! Suc i))
        \<and> (\<forall>j < Suc i. e \<notin> set (snd (((cat, exts) # rest) ! j)))" using i by simp
    then show ?thesis by blast
  qed
qed

text \<open>
  Claim C5, as the code has it by design. \<open>get_category_for_extension\<close> lower-cases its
  input: two inputs with the same lower-casing get the same answer, whatever the
  configuration. Where the configured extensions are written in lower case, as the
  built-in ones are, the comparison is case-insensitive and the first category decides:
  the answer is \<open>None\<close> when no configured extension equals the input up to letter case, and
  otherwise it is the name at the least position \<open>i\<close> of the category map whose list has
  an extension equal to the input up to letter case. There is no test for the empty
  extension: it is in no category exactly when no list contains the empty string.
  What the lookup answers for an extension configured with capital letters is left open
  here.
\<close>

theorem C5_category_lookup:
  "(lower e1 = lower e2 \<longrightarrow>
      get_category_for_extension cfg e1 = get_category_for_extension cfg e2)
   \<and> ((\<forall>ce \<in> set (categories cfg). \<forall>x \<in> set (snd ce). lower x = x) \<longrightarrow>
        (case get_category_for_extension cfg e of
           None \<Rightarrow> \<forall>ce \<in> set (categories cfg). \<forall>x \<in> set (snd ce). lower x \<noteq> lower e
         | Some c \<Rightarrow>
             \<exists>i < length (categories cfg). fst (categories cfg ! i) = c
                \<and> (\<exists>x \<in> set (snd (categories cfg ! i)). lower x = lower e)
                \<and> (\<forall>j < i. \<forall>x \<in> set (snd (categories cfg ! j)). lower x \<noteq> lower e)))
   \<and> ((get_category_for_extension cfg [] = None)
        = (\<forall>ce \<in> set (categories cfg). [] \<notin> set (snd ce)))"
proof (intro conjI impI)
  assume "lower e1 = lower e2"
  then show "get_category_for_extension cfg e1 = get_category_for_extension cfg e2"
    by (simp add: get_category_for_extension_def)
next
  assume low: "\<forall>ce \<in> set (categories cfg). \<forall>x \<in> set (snd ce). lower x = x"
  have eqv: "(\<exists>x \<in> set (snd ce). lower x = lower e) = (lower e \<in> set (snd ce))"
    if "ce \<in> set (categories cfg)" for ce
    using low that by (metis)
  show "case get_category_for_extension cfg e of
           None \<Rightarrow> \<forall>ce \<in> set (categories cfg). \<forall>x \<in> set (snd ce). lower x \<noteq> lower e
         | Some c \<Rightarrow>
             \<exists>i < length (categories cfg). fst (categories cfg ! i) = c
                \<and> (\<exists>x \<in> set (snd (categories cfg ! i)). lower x = lower e)
                \<and> (\<forall>j < i. \<forall>x \<in> set (snd (categories cfg ! j)). lower x \<noteq> lower e)"
  proof (cases "get_category_for_extension cfg e")
    case None
    then have "\<forall>ce \<in> set (categories cfg). lower e \<notin> set (snd ce)"
      by (simp add: get_category_for_extension_def first_category_None)
    then have "\<forall>ce \<in> set (categories cfg). \<forall>x \<in> set (snd ce). lower x \<noteq> lower e"
      using eqv by blast
    then show ?thesis using None by simp
  next
    case (Some c)
    then have "first_category (lower e) (categories cfg) = Some c"
      by (simp add: get_category_for_extension_def)
    from first_category_first [OF this] obtain i where i: "i < length (categories cfg)"
      "fst (categories cfg ! i) = c" "lower e \<in> set (snd (categories cfg ! i))"
      "\<forall>j < i. lower e \<notin> set (snd (categories cfg ! j))" by blast
    have m: "categories cfg ! j \<in> set (categories cfg)" if "j \<le> i" for j
      using that i(1) by simp
    have a: "\<exists>x \<in> set (snd (categories cfg ! i)). lower x = lower e"
      using eqv [OF m [of i]] i(3) by simp
    have b: "\<forall>j < i. \<forall>x \<in> set (snd (categories cfg ! j)). lower x \<noteq> lower e"
    proof (intro allI impI)
      fix j assume j: "j < i"
      then have "lower e \<notin> set (snd (categories cfg ! j))" using i(4) by simp
      then show "\<forall>x \<in> set (snd (categories cfg ! j)). lower x \<noteq> lower e"
        using eqv [OF m [of j]] j by auto
    qed
    from i(1) i(2) a b have "\<exists>i < length (categories cfg). fst (categories cfg ! i) = c
                \<and> (\<exists>x \<in> set (snd (categories cfg ! i)). lower x = lower e)
                \<and> (\<forall>j < i. \<forall>x \<in> set (snd (categories cfg ! j)). lower x \<noteq> lower e)" by blast
    then show ?thesis using Some by simp
  qed
next
  show "(get_category_for_extension cfg [] = None)
        = (\<forall>ce \<in> set (categories cfg). [] \<notin> set (snd ce))"
    by (simp add: get_category_for_extension_def first_category_None lower_def)
qed

text \<open>
  Witness for C5 on the default configuration, whose extensions are all in lower case and
  non-empty: \<open>.XLSX\<close> and \<open>.xlsx\<close> get the same answer; \<open>.XlsX\<close> falls into \<open>Documents\<close>, the
  first category that lists \<open>.xlsx\<close>, although \<open>Spreadsheets\<close> lists it as well; and the
  empty extension is in no category.
\<close>

theorem C5_witness:
  "lower ''.XLSX'' = lower ''.xlsx''
   \<and> get_category_for_extension default_config ''.XLSX'' = get_category_for_extension default_config ''.xlsx''
   \<and> list_all (\<lambda>ce. list_all (\<lambda>x. lower x = x) (snd ce)) (categories default_config)
   \<and> get_category_for_extension default_config ''.XlsX'' = Some ''Documents''
   \<and> (\<exists>i < length (categories default_config). fst (categories default_config ! i) = ''Documents''
        \<and> (\<exists>x \<in> set (snd (categories default_config ! i)). lower x = lower ''.XlsX'')
        \<and> (\<forall>j < i. \<forall>x \<in> set (snd (categories default_config ! j)). lower x \<noteq> lower ''.XlsX''))
   \<and> ''.xlsx'' \<in> set (the (map_of (categories default_config) ''Spreadsheets''))
   \<and> list_all (\<lambda>ce. [] \<notin> set (snd ce)) (categories default_config)
   \<and> get_category_for_extension default_config [] = None"
proof -
  have a: "lower ''.XLSX'' = lower ''.xlsx''" by code_simp
  have b: "get_category_for_extension default_config ''.XlsX'' = Some ''Documents''" by code_simp
  have l: "list_all (\<lambda>ce. list_all (\<lambda>x. lower x = x) (snd ce)) (categories default_config)"
    by code_simp
  then have low: "\<forall>ce \<in> set (categories default_config). \<forall>x \<in> set (snd ce). lower x = x"
    by (simp add: list_all_iff)
  have e: "list_all (\<lambda>ce. [] \<notin> set (snd ce)) (categories default_config)" by code_simp
  then have emp: "\<forall>ce \<in> set (categories default_config). [] \<notin> set (snd ce)"
    by (simp add: list_all_iff)
  have s: "''.xlsx'' \<in> set (the (map_of (categories default_config) ''Spreadsheets''))" by code_simp
  from C5_category_lookup [of "''.XLSX''" "''.xlsx''" default_config "''.XlsX''"] a b low emp
  have "get_category_for_extension default_config ''.XLSX'' = get_category_for_extension default_config ''.xlsx''"
    and "\<exists>i < length (categories default_config). fst (categories default_config ! i) = ''Documents''
        \<and> (\<exists>x \<in> set (snd (categories default_config ! i)). lower x = lower ''.XlsX'')
        \<and> (\<forall>j < i. \<forall>x \<in> set (snd (categories default_config ! j)). lower x \<noteq> lower ''.XlsX'')"
    and "get_category_for_extension default_config [] = None"
    by simp_all
  with a b l e s show ?thesis by simp
qed

text \<open>
  Counterexample to C5 as stated: a configured extension written \<open>.MP4\<close> is not matched
  by \<open>.mp4\<close> (nor by anything else, since the input is lower-cased and the list is not),
  and a category that lists the empty string does match the empty extension.
\<close>

theorem C5_counterexample:
  "\<not> (\<forall>cfg e x c exts. (c, exts) \<in> set (categories cfg) \<and> x \<in> set exts \<and> lower x = lower e
          \<longrightarrow> get_category_for_extension cfg e \<noteq> None)
   \<and> \<not> (\<forall>cfg. get_category_for_extension cfg [] = None)"
proof
  have k1: "get_category_for_extension \<lparr>config_path = None, categories = [(''Videos'', [''.MP4''])]\<rparr> ''.mp4'' = None"
    by code_simp
  have k2: "lower ''.MP4'' = lower ''.mp4''" by code_simp
  show "\<not> (\<forall>cfg e x c exts. (c, exts) \<in> set (categories cfg) \<and> x \<in> set exts \<and> lower x = lower e
          \<longrightarrow> get_category_for_extension cfg e \<noteq> None)"
  proof
    assume a: "\<forall>cfg e x c exts. (c, exts) \<in> set (categories cfg) \<and> x \<in> set exts \<and> lower x = lower e
          \<longrightarrow> get_category_for_extension cfg e \<noteq> None"
    have "(''Videos'', [''.MP4'']) \<in> set (categories \<lparr>config_path = None, categories = [(''Videos'', [''.MP4''])]\<rparr>)
          \<and> ''.MP4'' \<in> set [''.MP4''] \<and> lower ''.MP4'' = lower ''.mp4''"
      using k2 by simp
    with a have "get_category_for_extension \<lparr>config_path = None, categories = [(''Videos'', [''.MP4''])]\<rparr> ''.mp4'' \<noteq> None"
      by blast
    with k1 show False by simp
  qed
next
  have k3: "get_category_for_extension \<lparr>config_path = None, categories = [(''Plain'', [[]])]\<rparr> [] = Some ''Plain''"
    by code_simp
  show "\<not> (\<forall>cfg. get_category_for_extension cfg [] = None)"
  proof
    assume "\<forall>cfg. get_category_for_extension cfg [] = None"
    then have "get_category_for_extension \<lparr>config_path = None, categories = [(''Plain'', [[]])]\<rparr> [] = None"
      by blast
    with k3 show False by simp
  qed
qed


section \<open>Undo\<close>












section \<open>A failing enumeration\<close>

text \<open>
  Claim C6. When \<open>sort_files\<close> reaches the enumeration of the source directory (the
  category directories have been seen to, leaving the world \<open>w1\<close>) and \<open>os.listdir\<close> fails,
  the call returns the statistics \<open>{moved: 0, skipped: 0, errors: 0}\<close>; the sorter, and
  with it the history, is unchanged, the history file is not written, and every regular
  file is where it was: \<open>w1\<close> is the world the call started in, up to category directories
  created before the enumeration.
\<close>

theorem C6_listing_failure:
  assumes "ensure_directories_exist s w = (None, w1)" and "listdir w1 (source_dir s) = Inl e"
  shows "sort_files dump s dry_run duplicate_strategy organize_by_date w
           = (Inr \<lparr>moved = 0, skipped = 0, errors = 0\<rparr>, s, w1)
     \<and> (\<forall>p c m. (node_at w1 p = Some (File c m)) = (node_at w p = Some (File c m)))
     \<and> (\<not> create_subdirs s \<longrightarrow> w1 = w)"
proof -
  have "sort_files dump s dry_run duplicate_strategy organize_by_date w
           = (Inr \<lparr>moved = 0, skipped = 0, errors = 0\<rparr>, s, w1)"
    using assms by (simp add: sort_files_def zero_stats_def)
  moreover have "\<forall>p c m. (node_at w1 p = Some (File c m)) = (node_at w p = Some (File c m))"
    using only_adds_dirs_files [OF ensure_directories_adds [OF assms(1)]] by blast
  moreover have "\<not> create_subdirs s \<longrightarrow> w1 = w"
    using assms(1) by (auto simp: ensure_directories_exist_def)
  ultimately show ?thesis by blast
qed

text \<open>
  Witness for C6: \<open>/src\<close> cannot be listed; the pass creates \<open>/src/Videos\<close>, fails to
  enumerate and returns the zero statistics with \<open>a.mp4\<close> in place.
\<close>

theorem C6_witness:
  "ensure_directories_exist sR wL = (None, wL\<lparr>tree := tree wL @ [(''/src/Videos'', Dir)]\<rparr>)
   \<and> listdir (wL\<lparr>tree := tree wL @ [(''/src/Videos'', Dir)]\<rparr>) (source_dir sR) = Inl PermissionError
   \<and> sort_files toy_dump sR False ''rename'' False wL
       = (Inr \<lparr>moved = 0, skipped = 0, errors = 0\<rparr>, sR, wL\<lparr>tree := tree wL @ [(''/src/Videos'', Dir)]\<rparr>)
   \<and> node_at (wL\<lparr>tree := tree wL @ [(''/src/Videos'', Dir)]\<rparr>) ''/src/a.mp4'' = Some (File ''A'' (2024, 3))"
proof -
  have a: "ensure_directories_exist sR wL = (None, wL\<lparr>tree := tree wL @ [(''/src/Videos'', Dir)]\<rparr>)"
    by code_simp
  have b: "listdir (wL\<lparr>tree := tree wL @ [(''/src/Videos'', Dir)]\<rparr>) (source_dir sR) = Inl PermissionError"
    by code_simp
  have c: "node_at wL ''/src/a.mp4'' = Some (File ''A'' (2024, 3))" by code_simp
  from C6_listing_failure [OF a b, of toy_dump False "''rename''" False] a b c show ?thesis by simp
qed

section \<open>Passes that fail or only preview\<close>

text \<open>
  Claim C3 on the code. Under policy \<open>replace\<close> the deletion of the existing destination
  happens in \<open>_handle_duplicate\<close>, which \<open>sort_files\<close> calls outside its \<open>try\<close> block. When
  the deletion of \<open>/src/Videos/b.mp4\<close> is refused, the exception leaves \<open>sort_files\<close>: no
  statistics are returned, \<open>c.mp4\<close> is never looked at, and \<open>a.mp4\<close>, which was already
  moved, is not written to the history.
\<close>

theorem C3_replace_failure_escapes:
  "sort_files toy_dump sR False ''replace'' False wR
     = (Inl PermissionError, sR,
        wR\<lparr>tree := [(''/'', Dir), (''/src'', Dir), (''/src/Videos'', Dir),
                     (''/src/b.mp4'', File ''B'' (2024, 4)),
                     (''/src/c.mp4'', File ''C'' (2024, 5)),
                     (''/src/Videos/b.mp4'', File ''old'' (2023, 1)),
                     (''/src/Videos/a.mp4'', File ''A'' (2024, 3))]\<rparr>)"
  by code_simp


text \<open>
  Claim C2 on the code. A dry run creates the missing category directories, because
  \<open>_ensure_directories_exist\<close> runs before the \<open>dry_run\<close> test, and under policy \<open>replace\<close>
  it deletes the file at an occupied destination, because the resolver runs before that
  test as well. In both runs below the tree after the call differs from the tree before.
\<close>

theorem C2_dry_run_mutates:
  "sort_files toy_dump sC True ''rename'' False wD
     = (Inr \<lparr>moved = 2, skipped = 0, errors = 0\<rparr>, sC,
        wD\<lparr>tree := [(''/'', Dir), (''/src'', Dir), (''/src/a.mp4'', File ''A'' (2024, 3)),
                     (''/src/notes.txt'', File ''N'' (2024, 4)), (''/src/Videos'', Dir),
                     (''/src/Pictures'', Dir), (''/src/Music'', Dir),
                     (''/src/Documents'', Dir), (''/src/Archives'', Dir),
                     (''/src/Code'', Dir), (''/src/Executables'', Dir),
                     (''/src/Spreadsheets'', Dir)]\<rparr>)
   \<and> sort_files toy_dump sC True ''replace'' False wC
     = (Inr \<lparr>moved = 1, skipped = 0, errors = 0\<rparr>, sC,
        wC\<lparr>tree := [(''/'', Dir), (''/src'', Dir),
                     (''/src/a.mp4'', File ''new'' (2024, 3)), (''/src/Videos'', Dir),
                     (''/src/Videos/a_1.mp4'', File ''older'' (2022, 1)),
                     (''/src/Pictures'', Dir), (''/src/Music'', Dir),
                     (''/src/Documents'', Dir), (''/src/Archives'', Dir),
                     (''/src/Code'', Dir), (''/src/Executables'', Dir),
                     (''/src/Spreadsheets'', Dir)]\<rparr>)
   \<and> node_at wC ''/src/Videos/a.mp4'' = Some (File ''old'' (2023, 1))
   \<and> \<not> path_exists wD ''/src/Videos''"
proof -
  have a: "sort_files toy_dump sC True ''rename'' False wD
     = (Inr \<lparr>moved = 2, skipped = 0, errors = 0\<rparr>, sC,
        wD\<lparr>tree := [(''/'', Dir), (''/src'', Dir), (''/src/a.mp4'', File ''A'' (2024, 3)),
                     (''/src/notes.txt'', File ''N'' (2024, 4)), (''/src/Videos'', Dir),
                     (''/src/Pictures'', Dir), (''/src/Music'', Dir),
                     (''/src/Documents'', Dir), (''/src/Archives'', Dir),
                     (''/src/Code'', Dir), (''/src/Executables'', Dir),
                     (''/src/Spreadsheets'', Dir)]\<rparr>)"
    by code_simp
  have b: "sort_files toy_dump sC True ''replace'' False wC
     = (Inr \<lparr>moved = 1, skipped = 0, errors = 0\<rparr>, sC,
        wC\<lparr>tree := [(''/'', Dir), (''/src'', Dir),
                     (''/src/a.mp4'', File ''new'' (2024, 3)), (''/src/Videos'', Dir),
                     (''/src/Videos/a_1.mp4'', File ''older'' (2022, 1)),
                     (''/src/Pictures'', Dir), (''/src/Music'', Dir),
                     (''/src/Documents'', Dir), (''/src/Archives'', Dir),
                     (''/src/Code'', Dir), (''/src/Executables'', Dir),
                     (''/src/Spreadsheets'', Dir)]\<rparr>)"
    by code_simp
  have c: "node_at wC ''/src/Videos/a.mp4'' = Some (File ''old'' (2023, 1))" by code_simp
  have d: "\<not> path_exists wD ''/src/Videos''" by code_simp
  from a b c d show ?thesis by blast
qed

section \<open>The entry named like the history file\<close>

text \<open>
  Claim C9. In every pass, whatever the mode and the policy, the directory entry whose
  name is the basename of the history file path is passed over by the loop: its iteration
  changes neither the statistics nor the recorded operations nor the file system, so the
  pass computes what it would compute on the listing without that entry. No other
  iteration touches it either: the entry exists after the pass, and it is the very same
  node unless the history file path is that entry itself, which the pass then rewrites as
  its log. The history file path is absolute, like every path of this model; beyond that
  nothing is assumed about where the history file lies.
\<close>

theorem C9_history_name_left_alone:
  assumes "basename (history_file s) \<noteq> []"
  shows "sort_entry s dry_run duplicate_strategy organize_by_date (basename (history_file s)) acc w = (Inr acc, w)
     \<and> sort_loop s dry_run duplicate_strategy organize_by_date items acc w
         = sort_loop s dry_run duplicate_strategy organize_by_date
             (filter (\<lambda>f. f \<noteq> basename (history_file s)) items) acc w
     \<and> (sort_files dump s dry_run duplicate_strategy organize_by_date w0 = (r, s', w')
          \<and> path_exists w0 (join (source_dir s) (basename (history_file s)))
        \<longrightarrow> path_exists w' (join (source_dir s) (basename (history_file s)))
            \<and> (history_file s \<noteq> join (source_dir s) (basename (history_file s))
                 \<longrightarrow> node_at w' (join (source_dir s) (basename (history_file s)))
                     = node_at w0 (join (source_dir s) (basename (history_file s)))))"
proof -
  let ?h = "basename (history_file s)"
  let ?P = "join (source_dir s) ?h"
  have plh: "plain ?h" using assms basename_no_sep by (simp add: plain_def)
  have bP: "basename ?P = ?h" using plh by (rule basename_join)
  have main: "node_at w' ?P = Some n
              \<or> (history_file s = ?P \<and> (\<exists>c m. node_at w' ?P = Some (File c m)))"
    if sf: "sort_files dump s dry_run duplicate_strategy organize_by_date w0 = (r, s', w')"
      and n: "node_at w0 ?P = Some n" for n
  proof -
    obtain r1 w1 where en: "ensure_directories_exist s w0 = (r1, w1)"
      by (cases "ensure_directories_exist s w0") auto
    have n1: "node_at w1 ?P = Some n"
      using only_adds_dirs_keeps [OF ensure_directories_adds [OF en] n] .
    show ?thesis
    proof (cases r1)
      case (Some e)
      then have "w' = w1" using sf en by (simp add: sort_files_def)
      then show ?thesis using n1 by simp
    next
      case None
      show ?thesis
      proof (cases "listdir w1 (source_dir s)")
        case (Inl e)
        then have "w' = w1" using sf en None by (simp add: sort_files_def)
        then show ?thesis using n1 by simp
      next
        case (Inr items1)
        obtain r2 w2 where lp: "sort_loop s dry_run duplicate_strategy organize_by_date items1 (zero_stats, []) w1 = (r2, w2)"
          by (cases "sort_loop s dry_run duplicate_strategy organize_by_date items1 (zero_stats, []) w1") auto
        note li = listdir_items [OF Inr]
        have "basename ?P \<notin> set (filter (\<lambda>f. f \<noteq> ?h) items1)" using bP by simp
        from sort_loop_keeps [OF lp _ _ n1 this] li
        have n2: "node_at w2 ?P = Some n" by blast
        have "w' = w2 \<or> (\<exists>s1. w' = save_history dump s1 w2 \<and> history_file s1 = history_file s)"
          using sf en None Inr lp by (cases r2) (auto simp: sort_files_def split: if_splits)
        then show ?thesis
        proof
          assume "w' = w2"
          then show ?thesis using n2 by simp
        next
          assume "\<exists>s1. w' = save_history dump s1 w2 \<and> history_file s1 = history_file s"
          then obtain s1 where s1: "w' = save_history dump s1 w2" "history_file s1 = history_file s" by blast
          from save_history_effect [of dump s1 w2 ?P] show ?thesis using s1 n2 by auto
        qed
      qed
    qed
  qed
  have p3: "sort_files dump s dry_run duplicate_strategy organize_by_date w0 = (r, s', w')
          \<and> path_exists w0 ?P
        \<longrightarrow> path_exists w' ?P \<and> (history_file s \<noteq> ?P \<longrightarrow> node_at w' ?P = node_at w0 ?P)"
  proof
    assume a: "sort_files dump s dry_run duplicate_strategy organize_by_date w0 = (r, s', w')
          \<and> path_exists w0 ?P"
    then obtain n where n: "node_at w0 ?P = Some n" by (auto simp: path_exists_def)
    from main [OF _ n] a
    have "node_at w' ?P = Some n \<or> (history_file s = ?P \<and> (\<exists>c m. node_at w' ?P = Some (File c m)))"
      by blast
    then show "path_exists w' ?P \<and> (history_file s \<noteq> ?P \<longrightarrow> node_at w' ?P = node_at w0 ?P)"
      using n by (auto simp: path_exists_def)
  qed
  show ?thesis using sort_entry_history_name sort_loop_history_name p3 by blast
qed


text \<open>
  Witness for C9: the history file is \<open>/home/u/history.txt\<close>; the unrelated
  \<open>/src/history.txt\<close> is neither moved nor counted, while \<open>other.txt\<close> is sorted.
\<close>

theorem C9_witness:
  "basename (history_file sN) \<noteq> []
   \<and> join (source_dir sN) (basename (history_file sN)) = ''/src/history.txt''
   \<and> history_file sN \<noteq> ''/src/history.txt''
   \<and> path_exists wN ''/src/history.txt''
   \<and> fst (sort_files toy_dump sN False ''rename'' False wN) = Inr \<lparr>moved = 1, skipped = 0, errors = 0\<rparr>
   \<and> node_at (snd (snd (sort_files toy_dump sN False ''rename'' False wN))) ''/src/history.txt''
       = node_at wN ''/src/history.txt''
   \<and> node_at wN ''/src/history.txt'' = Some (File ''unrelated notes'' (2024, 3))"
proof -
  have a: "basename (history_file sN) \<noteq> []" by code_simp
  have b: "join (source_dir sN) (basename (history_file sN)) = ''/src/history.txt''" by code_simp
  have c: "history_file sN \<noteq> ''/src/history.txt''" by code_simp
  have d: "path_exists wN ''/src/history.txt''" by code_simp
  have e: "fst (sort_files toy_dump sN False ''rename'' False wN) = Inr \<lparr>moved = 1, skipped = 0, errors = 0\<rparr>"
    by code_simp
  have f: "node_at wN ''/src/history.txt'' = Some (File ''unrelated notes'' (2024, 3))" by code_simp
  have g: "sort_files toy_dump sN False ''rename'' False wN
      = (fst (sort_files toy_dump sN False ''rename'' False wN),
         fst (snd (sort_files toy_dump sN False ''rename'' False wN)),
         snd (snd (sort_files toy_dump sN False ''rename'' False wN)))" by simp
  from C9_history_name_left_alone [OF a, of False "''rename''" False "(zero_stats, [])" wN "[]" toy_dump wN
      "fst (sort_files toy_dump sN False ''rename'' False wN)"
      "fst (snd (sort_files toy_dump sN False ''rename'' False wN))"
      "snd (snd (sort_files toy_dump sN False ''rename'' False wN))"] g b c d
  have "node_at (snd (snd (sort_files toy_dump sN False ''rename'' False wN))) ''/src/history.txt''
       = node_at wN ''/src/history.txt''" by simp
  with a b c d e f show ?thesis by simp
qed

section \<open>Duplicate detection\<close>

text \<open>
  The files directly under the source directory that are not directories and whose digest
  is \<open>h\<close>, in listing order: what the specification calls the group of \<open>h\<close>.
\<close>

definition hashed_paths :: "(string \<Rightarrow> string) \<Rightarrow> world \<Rightarrow> string \<Rightarrow> string list \<Rightarrow> string \<Rightarrow> string list" where
  "hashed_paths md5 w src items h =
     filter (\<lambda>p. \<not> isdir w p \<and> get_file_hash md5 w p = h) (map (join src) items)"

lemma map_of_hash_map_add:
  "map_of (hash_map_add h p hm) h' =
     (if h' = h then Some ((case map_of hm h of None \<Rightarrow> [] | Some l \<Rightarrow> l) @ [p]) else map_of hm h')"
  by (simp add: hash_map_add_def update_conv' split: option.splits)

lemma distinct_hash_map_add:
  "distinct (map fst hm) \<Longrightarrow> distinct (map fst (hash_map_add h p hm))"
  by (simp add: hash_map_add_def distinct_update split: option.splits)

lemma map_of_hash_loop:
  "map_of (hash_loop md5 w src items hm) h =
     (if h = [] \<or> hashed_paths md5 w src items h = [] then map_of hm h
      else Some ((case map_of hm h of None \<Rightarrow> [] | Some l \<Rightarrow> l) @ hashed_paths md5 w src items h))"
proof (induction items arbitrary: hm)
  case Nil
  show ?case by (simp add: hashed_paths_def)
next
  case (Cons f fs)
  let ?p = "join src f"
  have hp: "hashed_paths md5 w src (f # fs) h =
      (if \<not> isdir w ?p \<and> get_file_hash md5 w ?p = h then ?p # hashed_paths md5 w src fs h
       else hashed_paths md5 w src fs h)"
    by (simp add: hashed_paths_def)
  consider (skip) "isdir w ?p \<or> get_file_hash md5 w ?p = []"
    | (add) "\<not> isdir w ?p" "get_file_hash md5 w ?p \<noteq> []" by blast
  then show ?case
  proof cases
    case skip
    then have "hash_loop md5 w src (f # fs) hm = hash_loop md5 w src fs hm" by auto
    moreover have "h \<noteq> [] \<Longrightarrow> hashed_paths md5 w src (f # fs) h = hashed_paths md5 w src fs h"
      using skip hp by auto
    ultimately show ?thesis using Cons.IH [of hm] by auto
  next
    case add
    let ?hm = "hash_map_add (get_file_hash md5 w ?p) ?p hm"
    have st: "hash_loop md5 w src (f # fs) hm = hash_loop md5 w src fs ?hm" using add by simp
    show ?thesis
    proof (cases "get_file_hash md5 w ?p = h")
      case True
      then have "hashed_paths md5 w src (f # fs) h = ?p # hashed_paths md5 w src fs h"
        using add hp by simp
      moreover have "map_of ?hm h = Some ((case map_of hm h of None \<Rightarrow> [] | Some l \<Rightarrow> l) @ [?p])"
        using True by (simp add: map_of_hash_map_add)
      moreover have "h \<noteq> []" using True add by auto
      ultimately show ?thesis using st Cons.IH [of ?hm] by simp
    next
      case False
      then have "hashed_paths md5 w src (f # fs) h = hashed_paths md5 w src fs h"
        using hp by simp
      moreover have "map_of ?hm h = map_of hm h"
        using False by (simp add: map_of_hash_map_add)
      ultimately show ?thesis using st Cons.IH [of ?hm] by simp
    qed
  qed
qed

lemma distinct_hash_loop:
  "distinct (map fst hm) \<Longrightarrow> distinct (map fst (hash_loop md5 w src items hm))"
  by (induction items arbitrary: hm) (simp_all add: distinct_hash_map_add)

lemma map_of_filter_snd:
  "distinct (map fst xs) \<Longrightarrow>
     map_of (filter (\<lambda>kv. Q (snd kv)) xs) k =
       (case map_of xs k of None \<Rightarrow> None | Some v \<Rightarrow> if Q v then Some v else None)"
proof (induction xs)
  case Nil
  show ?case by simp
next
  case (Cons x xs)
  have nx: "fst x \<notin> fst ` set xs" using Cons.prems by simp
  then have a: "map_of xs (fst x) = None" by (simp add: map_of_eq_None_iff)
  have "fst x \<notin> fst ` set (filter (\<lambda>kv. Q (snd kv)) xs)" using nx by auto
  then have b: "map_of (filter (\<lambda>kv. Q (snd kv)) xs) (fst x) = None"
    by (simp add: map_of_eq_None_iff)
  have ih: "map_of (filter (\<lambda>kv. Q (snd kv)) xs) k =
       (case map_of xs k of None \<Rightarrow> None | Some v \<Rightarrow> if Q v then Some v else None)"
    using Cons by simp
  show ?case
  proof (cases "k = fst x")
    case True
    then show ?thesis using a b by (cases x) auto
  next
    case False
    then show ?thesis using ih by (cases x) auto
  qed
qed

lemma map_of_find_duplicates:
  assumes "listdir w (source_dir s) = Inr items"
  shows "(map_of (find_duplicates md5 s w) h = Some ps) =
           (h \<noteq> [] \<and> ps = hashed_paths md5 w (source_dir s) items h \<and> 1 < length ps)"
proof -
  have d: "distinct (map fst (hash_loop md5 w (source_dir s) items []))"
    by (rule distinct_hash_loop) simp
  have "map_of (find_duplicates md5 s w) h =
      (case map_of (hash_loop md5 w (source_dir s) items []) h of
         None \<Rightarrow> None | Some v \<Rightarrow> if 1 < length v then Some v else None)"
    using assms map_of_filter_snd [OF d, of "\<lambda>v. 1 < length v" h]
    by (simp add: find_duplicates_def)
  then show ?thesis
    by (auto simp: map_of_hash_loop split: if_splits)
qed

lemma distinct_find_duplicates: "distinct (map fst (find_duplicates md5 s w))"
proof (cases "listdir w (source_dir s)")
  case (Inl e)
  then show ?thesis by (simp add: find_duplicates_def)
next
  case (Inr items)
  have "distinct (map fst (hash_loop md5 w (source_dir s) items []))"
    by (rule distinct_hash_loop) simp
  then show ?thesis using Inr by (simp add: find_duplicates_def distinct_map_filter)
qed

text \<open>
  Claim C8. When the listing succeeds, the result of \<open>find_duplicates\<close> is a dictionary
  (no digest twice) whose entries are exactly the digests \<open>h\<close>, other than the empty
  sentinel, that more than one entry has, each with all the entries of that digest. So
  every path in a group has the digest of its group, is no directory and has not failed
  to be read; and a readable file with content \<open>c\<close> whose digest at least one other
  entry shares is in the one group of \<open>md5 c\<close>, with all the files of that digest.
\<close>

theorem C8_find_duplicates:
  assumes "listdir w (source_dir s) = Inr items"
  shows "(((h, ps) \<in> set (find_duplicates md5 s w)) =
            (h \<noteq> [] \<and> ps = hashed_paths md5 w (source_dir s) items h \<and> 1 < length ps))
     \<and> distinct (map fst (find_duplicates md5 s w))
     \<and> ((h, ps) \<in> set (find_duplicates md5 s w) \<and> p \<in> set ps \<longrightarrow>
           get_file_hash md5 w p = h \<and> get_file_hash md5 w p \<noteq> [] \<and> \<not> isdir w p
           \<and> (\<exists>f \<in> set items. p = join (source_dir s) f))
     \<and> (f \<in> set items \<and> read_file w (join (source_dir s) f) = Inr c \<and> md5 c \<noteq> []
          \<and> 1 < length (hashed_paths md5 w (source_dir s) items (md5 c)) \<longrightarrow>
           (md5 c, hashed_paths md5 w (source_dir s) items (md5 c)) \<in> set (find_duplicates md5 s w)
           \<and> join (source_dir s) f \<in> set (hashed_paths md5 w (source_dir s) items (md5 c)))"
proof -
  have m: "((h', ps') \<in> set (find_duplicates md5 s w)) =
            (h' \<noteq> [] \<and> ps' = hashed_paths md5 w (source_dir s) items h' \<and> 1 < length ps')" for h' ps'
    using map_of_find_duplicates [OF assms, of md5 h' ps'] distinct_find_duplicates [of md5 s w]
    by (simp add: map_of_eq_Some_iff)
  have p3: "(h, ps) \<in> set (find_duplicates md5 s w) \<and> p \<in> set ps \<longrightarrow>
           get_file_hash md5 w p = h \<and> get_file_hash md5 w p \<noteq> [] \<and> \<not> isdir w p
           \<and> (\<exists>f \<in> set items. p = join (source_dir s) f)"
    using m [of h ps] by (auto simp: hashed_paths_def)
  have p4: "f \<in> set items \<and> read_file w (join (source_dir s) f) = Inr c \<and> md5 c \<noteq> []
          \<and> 1 < length (hashed_paths md5 w (source_dir s) items (md5 c)) \<longrightarrow>
           (md5 c, hashed_paths md5 w (source_dir s) items (md5 c)) \<in> set (find_duplicates md5 s w)
           \<and> join (source_dir s) f \<in> set (hashed_paths md5 w (source_dir s) items (md5 c))"
  proof
    assume a: "f \<in> set items \<and> read_file w (join (source_dir s) f) = Inr c \<and> md5 c \<noteq> []
          \<and> 1 < length (hashed_paths md5 w (source_dir s) items (md5 c))"
    then have "\<not> isdir w (join (source_dir s) f)"
      by (auto simp: read_file_def isdir_def split: option.splits node.splits)
    moreover have "get_file_hash md5 w (join (source_dir s) f) = md5 c"
      using a by (simp add: get_file_hash_def)
    ultimately have "join (source_dir s) f \<in> set (hashed_paths md5 w (source_dir s) items (md5 c))"
      using a by (auto simp: hashed_paths_def)
    then show "(md5 c, hashed_paths md5 w (source_dir s) items (md5 c)) \<in> set (find_duplicates md5 s w)
           \<and> join (source_dir s) f \<in> set (hashed_paths md5 w (source_dir s) items (md5 c))"
      using a m by simp
  qed
  from m [of h ps] distinct_find_duplicates [of md5 s w] p3 p4 show ?thesis by blast
qed

text \<open>
  Witness for C8: three readable files with the same bytes form one group of size three;
  the unreadable file with the same bytes, the file with other bytes and the file below the
  subdirectory are in no group.
\<close>

theorem C8_witness:
  "listdir wH (source_dir sC) = Inr [''x.txt'', ''u.txt'', ''y.txt'', ''sub'', ''locked'', ''z.bin'']
   \<and> find_duplicates toy_md5 sC wH = [(''md5:same'', [''/src/x.txt'', ''/src/y.txt'', ''/src/z.bin''])]
   \<and> hashed_paths toy_md5 wH (source_dir sC) [''x.txt'', ''u.txt'', ''y.txt'', ''sub'', ''locked'', ''z.bin''] ''md5:same''
       = [''/src/x.txt'', ''/src/y.txt'', ''/src/z.bin'']
   \<and> (''md5:same'', [''/src/x.txt'', ''/src/y.txt'', ''/src/z.bin'']) \<in> set (find_duplicates toy_md5 sC wH)
   \<and> read_file wH (join (source_dir sC) ''z.bin'') = Inr ''same''
   \<and> get_file_hash toy_md5 wH ''/src/y.txt'' = ''md5:same''
   \<and> get_file_hash toy_md5 wH ''/src/locked'' = []"
proof -
  have a: "listdir wH (source_dir sC) = Inr [''x.txt'', ''u.txt'', ''y.txt'', ''sub'', ''locked'', ''z.bin'']"
    by code_simp
  have b: "find_duplicates toy_md5 sC wH = [(''md5:same'', [''/src/x.txt'', ''/src/y.txt'', ''/src/z.bin''])]"
    by code_simp
  have c: "hashed_paths toy_md5 wH (source_dir sC) [''x.txt'', ''u.txt'', ''y.txt'', ''sub'', ''locked'', ''z.bin''] ''md5:same''
       = [''/src/x.txt'', ''/src/y.txt'', ''/src/z.bin'']"
    by code_simp
  have d: "read_file wH (join (source_dir sC) ''z.bin'') = Inr ''same''" by code_simp
  have e: "get_file_hash toy_md5 wH ''/src/locked'' = []" by code_simp
  from C8_find_duplicates [OF a, of "''md5:same''" "[''/src/x.txt'', ''/src/y.txt'', ''/src/z.bin'']"
      toy_md5 "''/src/y.txt''" "''z.bin''" "''same''"] a b c d e
  show ?thesis by simp
qed

section \<open>Sorting and undoing\<close>

lemma sort_entry_errors_mono:
  assumes "sort_entry s dry strat bd f acc w = (Inr acc', w')"
  shows "errors (fst acc) \<le> errors (fst acc')"
proof -
  from sort_entry_cases [OF assms] show ?thesis
  proof
    assume "w' = w \<and> (Inr acc' = Inr acc \<or> Inr acc' = Inr (fst acc\<lparr>skipped := skipped (fst acc) + 1\<rparr>, snd acc)
                    \<or> (\<exists>x. Inr acc' = Inl x))"
    then show ?thesis by auto
  next
    assume "\<exists>cat dd t w1. \<not> isdir w (join (source_dir s) f) \<and> f \<noteq> basename (history_file s) \<and> cat \<noteq> []
             \<and> handle_duplicate w (join (source_dir s) f) (join dd f) strat = (Inr (Some t), w1)
             \<and> ((dry \<and> w' = w1 \<and> Inr acc' = Inr (fst acc\<lparr>moved := moved (fst acc) + 1\<rparr>, snd acc))
                \<or> (\<not> dry \<and> (\<exists>acc''. execute_move (join (source_dir s) f) t f cat acc w1 = (acc'', w')
                                        \<and> Inr acc' = Inr acc'')))"
    then obtain cat t w1 where
      "acc' = (fst acc\<lparr>moved := moved (fst acc) + 1\<rparr>, snd acc)
       \<or> execute_move (join (source_dir s) f) t f cat acc w1 = (acc', w')" by auto
    then show ?thesis
    proof
      assume "acc' = (fst acc\<lparr>moved := moved (fst acc) + 1\<rparr>, snd acc)"
      then show ?thesis by simp
    next
      assume "execute_move (join (source_dir s) f) t f cat acc w1 = (acc', w')"
      from execute_move_cases [OF this] show ?thesis by auto
    qed
  qed
qed

lemma sort_loop_errors_mono:
  "sort_loop s dry strat bd items acc w = (Inr acc', w') \<Longrightarrow> errors (fst acc) \<le> errors (fst acc')"
proof (induction items arbitrary: acc w)
  case Nil
  then show ?case by simp
next
  case (Cons f fs)
  obtain r1 w1 where se: "sort_entry s dry strat bd f acc w = (r1, w1)"
    by (cases "sort_entry s dry strat bd f acc w") auto
  show ?case
  proof (cases r1)
    case (Inl e)
    then show ?thesis using Cons.prems se by simp
  next
    case (Inr acc1)
    then have "sort_loop s dry strat bd fs acc1 w1 = (Inr acc', w')" using Cons.prems se by simp
    from Cons.IH [OF this] sort_entry_errors_mono [of s dry strat bd f acc w acc1 w1] se Inr
    show ?thesis by simp
  qed
qed

text \<open>
  The records in the order in which they will be undone, latest first: no record's source
  is the destination of an older record.
\<close>

fun undo_order_ok :: "operation list \<Rightarrow> bool" where
  "undo_order_ok [] = True"
| "undo_order_ok (op # older) =
     ((\<forall>x \<in> set older. destination x \<noteq> source op) \<and> undo_order_ok older)"

text \<open>
  What a pass that started its loop in \<open>w1\<close> maintains while, in \<open>w\<close>, the operations
  \<open>ops\<close> are recorded and the entries \<open>rest\<close> are still to come.
\<close>

definition pass_inv :: "sorter \<Rightarrow> string \<Rightarrow> world \<Rightarrow> world \<Rightarrow> operation list \<Rightarrow> string list \<Rightarrow> bool" where
  "pass_inv s strat w1 w ops rest =
     (denied w = denied w1
      \<and> (\<forall>f \<in> set rest. node_at w (join (source_dir s) f) = node_at w1 (join (source_dir s) f))
      \<and> (\<forall>op \<in> set ops. node_at w (destination op) = node_at w1 (source op)
                          \<and> (\<exists>c m. node_at w1 (source op) = Some (File c m)))
      \<and> distinct (map destination ops)
      \<and> distinct (map source ops)
      \<and> (\<forall>op \<in> set ops. \<forall>f \<in> set rest.
            destination op \<noteq> join (source_dir s) f \<and> source op \<noteq> join (source_dir s) f
            \<and> filename op \<noteq> f)
      \<and> undo_order_ok (rev ops)
      \<and> (strat = ''replace'' \<longrightarrow> (\<forall>op \<in> set ops. basename (destination op) = filename op))
      \<and> (\<forall>op \<in> set ops. source op \<noteq> history_file s \<and> source op \<notin> set (denied w1)
                          \<and> destination op \<notin> set (denied w1))
      \<and> (\<forall>p. isdir w1 p \<longrightarrow> isdir w p))"

lemma pass_inv_rest: "pass_inv s strat w1 w ops (f # rest) \<Longrightarrow> pass_inv s strat w1 w ops rest"
  by (simp add: pass_inv_def)

lemma pass_inv_step:
  assumes inv: "pass_inv s strat w1 w ops (f # rest)"
    and se: "sort_entry s False strat bd f (st, ops) w = (Inr (st', ops'), w')"
    and ne: "errors st' = errors st"
    and st: "strat \<in> {''skip'', ''rename'', ''replace''}"
    and di: "distinct (f # rest)"
    and pl: "\<forall>g \<in> set (f # rest). plain g \<and> path_exists w1 (join (source_dir s) g)"
  shows "pass_inv s strat w1 w' ops' rest
     \<and> (\<exists>new. ops' = ops @ new \<and> moved st' = moved st + length new)"
proof (cases "isdir w (join (source_dir s) f)")
  case True
  then have "w' = w \<and> ops' = ops \<and> st' = st" using se by (simp add: sort_entry_def)
  then show ?thesis using pass_inv_rest [OF inv] by simp
next
  case False
  let ?src = "source_dir s"
  let ?sp = "join ?src f"
  have plf: "plain f" using pl by simp
  have "node_at w ?sp = node_at w1 ?sp" using inv by (simp add: pass_inv_def)
  moreover have "path_exists w1 ?sp" using pl by simp
  ultimately have "path_exists w ?sp" by (simp add: path_exists_def)
  from file_or_dir [OF this False] obtain c m where sp: "node_at w ?sp = Some (File c m)" by blast
  have sp1: "node_at w1 ?sp = Some (File c m)" using sp \<open>node_at w ?sp = node_at w1 ?sp\<close> by simp
  from sort_entry_moves [OF se plf sp st] ne
  have "(w' = w \<and> ops' = ops \<and> moved st' = moved st)
     \<or> (\<exists>d cat. ops' = ops @ [\<lparr>timestamp = now_iso w', source = ?sp,
                                        destination = d, filename = f, category = cat\<rparr>]
          \<and> moved st' = moved st + 1
          \<and> f \<noteq> basename (history_file s)
          \<and> d \<noteq> ?sp
          \<and> node_at w' ?sp = None
          \<and> node_at w' d = Some (File c m)
          \<and> (node_at w d = None \<or> (strat = ''replace'' \<and> (\<exists>c' m'. node_at w d = Some (File c' m'))))
          \<and> (strat = ''replace'' \<longrightarrow> basename d = f)
          \<and> (\<forall>q. q \<noteq> ?sp \<and> q \<noteq> d \<longrightarrow>
                 node_at w' q = node_at w q \<or> (node_at w q = None \<and> node_at w' q = Some Dir))
          \<and> denied w' = denied w
          \<and> ?sp \<notin> set (denied w) \<and> d \<notin> set (denied w))" by simp
  then show ?thesis
  proof
    assume "w' = w \<and> ops' = ops \<and> moved st' = moved st"
    then show ?thesis using pass_inv_rest [OF inv] by simp
  next
    assume "\<exists>d cat. ops' = ops @ [\<lparr>timestamp = now_iso w', source = ?sp,
                                        destination = d, filename = f, category = cat\<rparr>]
          \<and> moved st' = moved st + 1
          \<and> f \<noteq> basename (history_file s)
          \<and> d \<noteq> ?sp
          \<and> node_at w' ?sp = None
          \<and> node_at w' d = Some (File c m)
          \<and> (node_at w d = None \<or> (strat = ''replace'' \<and> (\<exists>c' m'. node_at w d = Some (File c' m'))))
          \<and> (strat = ''replace'' \<longrightarrow> basename d = f)
          \<and> (\<forall>q. q \<noteq> ?sp \<and> q \<noteq> d \<longrightarrow>
                 node_at w' q = node_at w q \<or> (node_at w q = None \<and> node_at w' q = Some Dir))
          \<and> denied w' = denied w
          \<and> ?sp \<notin> set (denied w) \<and> d \<notin> set (denied w)"
    then obtain d cat where
      ops': "ops' = ops @ [\<lparr>timestamp = now_iso w', source = ?sp,
                             destination = d, filename = f, category = cat\<rparr>]"
      and mv: "moved st' = moved st + 1"
      and nh: "f \<noteq> basename (history_file s)"
      and dsp: "d \<noteq> ?sp"
      and nd: "node_at w' d = Some (File c m)"
      and wd: "node_at w d = None \<or> (strat = ''replace'' \<and> (\<exists>c' m'. node_at w d = Some (File c' m')))"
      and rb: "strat = ''replace'' \<longrightarrow> basename d = f"
      and fr: "\<forall>q. q \<noteq> ?sp \<and> q \<noteq> d \<longrightarrow>
                 node_at w' q = node_at w q \<or> (node_at w q = None \<and> node_at w' q = Some Dir)"
      and dn: "denied w' = denied w" "?sp \<notin> set (denied w)" "d \<notin> set (denied w)"
      by blast
    let ?op = "\<lparr>timestamp = now_iso w', source = ?sp, destination = d, filename = f, category = cat\<rparr>"
    \<comment> \<open>the parts of the invariant before the step\<close>
    have i0: "denied w = denied w1" using inv by (simp add: pass_inv_def)
    have i1: "\<forall>g \<in> set rest. node_at w (join ?src g) = node_at w1 (join ?src g)"
      using inv by (simp add: pass_inv_def)
    have i2: "\<forall>op \<in> set ops. node_at w (destination op) = node_at w1 (source op)
                          \<and> (\<exists>c m. node_at w1 (source op) = Some (File c m))"
      using inv by (simp add: pass_inv_def)
    have i3: "distinct (map destination ops)" "distinct (map source ops)"
      using inv by (simp_all add: pass_inv_def)
    have i4: "\<forall>op \<in> set ops. \<forall>g \<in> set (f # rest).
            destination op \<noteq> join ?src g \<and> source op \<noteq> join ?src g \<and> filename op \<noteq> g"
      using inv by (simp add: pass_inv_def)
    have i5: "undo_order_ok (rev ops)" using inv by (simp add: pass_inv_def)
    have i7: "strat = ''replace'' \<longrightarrow> (\<forall>op \<in> set ops. basename (destination op) = filename op)"
      using inv by (simp add: pass_inv_def)
    have i9: "\<forall>op \<in> set ops. source op \<noteq> history_file s \<and> source op \<notin> set (denied w1)
                          \<and> destination op \<notin> set (denied w1)"
      using inv by (simp add: pass_inv_def)
    have i8: "\<forall>p. isdir w1 p \<longrightarrow> isdir w p" using inv by (simp add: pass_inv_def)
    \<comment> \<open>paths that the step leaves alone\<close>
    have keep: "node_at w' q = node_at w q" if "node_at w q \<noteq> None" "q \<noteq> ?sp" "q \<noteq> d" for q
      using fr that by metis
    have rest_ne: "join ?src g \<noteq> ?sp \<and> join ?src g \<noteq> d \<and> g \<noteq> f" if g: "g \<in> set rest" for g
    proof -
      have gf: "g \<noteq> f" using di g by auto
      have pg: "plain g" using pl g by simp
      have a: "join ?src g \<noteq> ?sp" using join_inj [OF pg plf] gf by auto
      have ex: "node_at w (join ?src g) \<noteq> None" using i1 g pl by (simp add: path_exists_def)
      have b: "join ?src g \<noteq> d"
      proof
        assume e: "join ?src g = d"
        from wd show False
        proof
          assume "node_at w d = None"
          then show False using ex e by simp
        next
          assume "strat = ''replace'' \<and> (\<exists>c' m'. node_at w d = Some (File c' m'))"
          then have "basename d = f" using rb by simp
          then show False using basename_join [OF pg, of ?src] e gf by simp
        qed
      qed
      show ?thesis using a b gf by simp
    qed
    have old_ne: "destination op \<noteq> ?sp \<and> destination op \<noteq> d \<and> source op \<noteq> ?sp" if o: "op \<in> set ops" for op
    proof -
      have a: "destination op \<noteq> ?sp" "source op \<noteq> ?sp" "filename op \<noteq> f" using i4 o by auto
      have ex: "node_at w (destination op) \<noteq> None" using i2 o by auto
      have b: "destination op \<noteq> d"
      proof
        assume e: "destination op = d"
        from wd show False
        proof
          assume "node_at w d = None"
          then show False using ex e by simp
        next
          assume r: "strat = ''replace'' \<and> (\<exists>c' m'. node_at w d = Some (File c' m'))"
          then have "basename d = f" using rb by simp
          moreover have "basename (destination op) = filename op" using i7 r o by simp
          ultimately show False using a(3) e by simp
        qed
      qed
      show ?thesis using a b by simp
    qed
    have n0: "denied w' = denied w1" using dn i0 by simp
    have n1: "\<forall>g \<in> set rest. node_at w' (join ?src g) = node_at w1 (join ?src g)"
    proof
      fix g assume g: "g \<in> set rest"
      have "node_at w (join ?src g) \<noteq> None" using i1 g pl by (simp add: path_exists_def)
      from keep [OF this] rest_ne [OF g] have "node_at w' (join ?src g) = node_at w (join ?src g)" by simp
      then show "node_at w' (join ?src g) = node_at w1 (join ?src g)" using i1 g by simp
    qed
    have n2: "\<forall>op \<in> set ops'. node_at w' (destination op) = node_at w1 (source op)
                          \<and> (\<exists>c m. node_at w1 (source op) = Some (File c m))"
    proof
      fix op assume "op \<in> set ops'"
      then have "op \<in> set ops \<or> op = ?op" using ops' by auto
      then show "node_at w' (destination op) = node_at w1 (source op)
                          \<and> (\<exists>c m. node_at w1 (source op) = Some (File c m))"
      proof
        assume o: "op \<in> set ops"
        have "node_at w (destination op) \<noteq> None" using i2 o by auto
        from keep [OF this] old_ne [OF o] have "node_at w' (destination op) = node_at w (destination op)" by simp
        then show ?thesis using i2 o by simp
      next
        assume "op = ?op"
        then show ?thesis using nd sp1 by simp
      qed
    qed
    have "d \<notin> destination ` set ops"
    proof
      assume "d \<in> destination ` set ops"
      then obtain x where x: "x \<in> set ops" "destination x = d" by auto
      from old_ne [OF x(1)] x(2) show False by simp
    qed
    moreover have "?sp \<notin> source ` set ops"
    proof
      assume "?sp \<in> source ` set ops"
      then obtain x where x: "x \<in> set ops" "source x = ?sp" by auto
      from old_ne [OF x(1)] x(2) show False by simp
    qed
    ultimately have n3: "distinct (map destination ops')" "distinct (map source ops')"
      using ops' i3 by simp_all
    have n4: "\<forall>op \<in> set ops'. \<forall>g \<in> set rest.
            destination op \<noteq> join ?src g \<and> source op \<noteq> join ?src g \<and> filename op \<noteq> g"
    proof (intro ballI)
      fix op g assume "op \<in> set ops'" and g: "g \<in> set rest"
      then have "op \<in> set ops \<or> op = ?op" using ops' by auto
      then show "destination op \<noteq> join ?src g \<and> source op \<noteq> join ?src g \<and> filename op \<noteq> g"
      proof
        assume "op \<in> set ops"
        then show ?thesis using i4 g by simp
      next
        assume "op = ?op"
        then show ?thesis using rest_ne [OF g] by auto
      qed
    qed
    have n5: "undo_order_ok (rev ops')" using ops' i5 old_ne by simp
    have n7: "strat = ''replace'' \<longrightarrow> (\<forall>op \<in> set ops'. basename (destination op) = filename op)"
      using ops' i7 rb by auto
    have n9: "\<forall>op \<in> set ops'. source op \<noteq> history_file s \<and> source op \<notin> set (denied w1)
                          \<and> destination op \<notin> set (denied w1)"
    proof -
      have "?sp \<noteq> history_file s" using basename_join [OF plf, of ?src] nh by auto
      then show ?thesis using ops' i9 dn i0 by auto
    qed
    have n8: "\<forall>p. isdir w1 p \<longrightarrow> isdir w' p"
    proof (intro allI impI)
      fix p assume "isdir w1 p"
      then have dp: "node_at w p = Some Dir" using i8 by (simp add: isdir_def)
      then have "p \<noteq> ?sp" using sp by auto
      moreover have "p \<noteq> d" using wd dp by auto
      ultimately have "node_at w' p = node_at w p" using keep dp by simp
      then show "isdir w' p" using dp by (simp add: isdir_def)
    qed
    have "pass_inv s strat w1 w' ops' rest"
      unfolding pass_inv_def using n0 n1 n2 n3 n4 n5 n7 n9 n8 by blast
    moreover have "\<exists>new. ops' = ops @ new \<and> moved st' = moved st + length new"
      using ops' mv by simp
    ultimately show ?thesis by simp
  qed
qed

lemma sort_loop_inv:
  assumes "sort_loop s False strat bd items (st, ops) w = (Inr (st', ops'), w')"
    and "errors st' = errors st"
    and "strat \<in> {''skip'', ''rename'', ''replace''}"
    and "distinct items"
    and "\<forall>g \<in> set items. plain g \<and> path_exists w1 (join (source_dir s) g)"
    and "pass_inv s strat w1 w ops items"
  shows "pass_inv s strat w1 w' ops' []
     \<and> (\<exists>new. ops' = ops @ new \<and> moved st' = moved st + length new)"
  using assms
proof (induction items arbitrary: st ops w)
  case Nil
  then show ?case by simp
next
  case (Cons f fs)
  obtain r1 wa where se: "sort_entry s False strat bd f (st, ops) w = (r1, wa)"
    by (cases "sort_entry s False strat bd f (st, ops) w") auto
  show ?case
  proof (cases r1)
    case (Inl e)
    then show ?thesis using Cons.prems(1) se by simp
  next
    case (Inr acc1)
    obtain st1 ops1 where acc1: "acc1 = (st1, ops1)" by (cases acc1) auto
    have se': "sort_entry s False strat bd f (st, ops) w = (Inr (st1, ops1), wa)"
      using se Inr acc1 by simp
    have lp: "sort_loop s False strat bd fs (st1, ops1) wa = (Inr (st', ops'), w')"
      using Cons.prems(1) se' by simp
    have e1: "errors st \<le> errors st1" using sort_entry_errors_mono [OF se'] by simp
    have e2: "errors st1 \<le> errors st'" using sort_loop_errors_mono [OF lp] by simp
    have ne1: "errors st1 = errors st" and ne2: "errors st' = errors st1"
      using e1 e2 Cons.prems(2) by auto
    from pass_inv_step [OF Cons.prems(6) se' ne1 Cons.prems(3) Cons.prems(4) Cons.prems(5)]
    obtain new1 where inv1: "pass_inv s strat w1 wa ops1 fs"
      and n1: "ops1 = ops @ new1" "moved st1 = moved st + length new1" by blast
    have d: "distinct fs" using Cons.prems(4) by simp
    have p: "\<forall>g \<in> set fs. plain g \<and> path_exists w1 (join (source_dir s) g)"
      using Cons.prems(5) by simp
    from Cons.IH [OF lp ne2 Cons.prems(3) d p inv1]
    obtain new2 where inv2: "pass_inv s strat w1 w' ops' []"
      and n2: "ops' = ops1 @ new2" "moved st' = moved st1 + length new2" by blast
    have "ops' = ops @ (new1 @ new2) \<and> moved st' = moved st + length (new1 @ new2)"
      using n1 n2 by simp
    then show ?thesis using inv2 by blast
  qed
qed

lemma pass_inv_start: "pass_inv s strat w1 w1 [] items"
  by (simp add: pass_inv_def)

text \<open>Moving a regular file onto a path that is no directory, in an existing directory.\<close>

lemma shutil_move_file_succeeds:
  assumes "node_at u d = Some (File c m)" and "\<not> isdir u t" and "isdir u (dirname t)"
    and "d \<notin> set (denied u)" and "t \<notin> set (denied u)"
  shows "\<exists>u'. shutil_move u d t = Inr u' \<and> node_at u' = (node_at u)(d := None, t \<mapsto> File c m)
              \<and> denied u' = denied u"
proof -
  have "os_rename u d t = Inr (u\<lparr>tree := AList.update t (File c m) (AList.delete d (tree u))\<rparr>)"
    using assms by (simp add: os_rename_def)
  then have sm: "shutil_move u d t = Inr (u\<lparr>tree := AList.update t (File c m) (AList.delete d (tree u))\<rparr>)"
    using assms(2) by (simp add: shutil_move_def)
  from shutil_move_file_effect [OF sm assms(1)] assms(2) sm show ?thesis by auto
qed

text \<open>
  Undoing the records \<open>ops\<close> at the tail of the log, in a world where every destination
  holds its file \<open>F op\<close> and no source is a directory: every file is back at its source.
\<close>

lemma undo_restores:
  assumes "\<forall>op \<in> set ops. node_at u (destination op) = Some (F op) \<and> (\<exists>c m. F op = File c m)"
    and "distinct (map destination ops)"
    and "distinct (map source ops)"
    and "undo_order_ok (rev ops)"
    and "\<forall>op \<in> set ops. \<not> isdir u (source op) \<and> isdir u (dirname (source op))
                        \<and> source op \<notin> set (denied u) \<and> destination op \<notin> set (denied u)"
  shows "\<exists>u'. undo_loop (length ops) (h0 @ ops) u r = (h0, u', r + length ops)
            \<and> (\<forall>op \<in> set ops. node_at u' (source op) = Some (F op))
            \<and> (\<forall>q. q \<notin> source ` set ops \<and> q \<notin> destination ` set ops \<longrightarrow> node_at u' q = node_at u q)
            \<and> denied u' = denied u"
  using assms
proof (induction ops arbitrary: u r rule: rev_induct)
  case Nil
  then show ?case by simp
next
  case (snoc op ops)
  let ?d = "destination op"
  let ?s = "source op"
  obtain c m where f: "F op = File c m" "node_at u ?d = Some (File c m)" using snoc.prems(1) by auto
  have side: "\<not> isdir u ?s" "isdir u (dirname ?s)" "?s \<notin> set (denied u)" "?d \<notin> set (denied u)"
    using snoc.prems(5) by auto
  from shutil_move_file_succeeds [OF f(2) side(1) side(2) side(4) side(3)]
  obtain u1 where mv: "shutil_move u ?d ?s = Inr u1"
    and n1: "node_at u1 = (node_at u)(?d := None, ?s \<mapsto> File c m)"
    and d1: "denied u1 = denied u" by blast
  have ex: "path_exists u ?d" using f(2) by (simp add: path_exists_def)
  have step: "undo_loop (length (ops @ [op])) (h0 @ ops @ [op]) u r
              = undo_loop (length ops) (h0 @ ops) u1 (r + 1)"
    using ex mv by (simp add: butlast_append)
  \<comment> \<open>the older records do not meet the one just undone\<close>
  have nm: "?d \<notin> destination ` set ops" "?s \<notin> source ` set ops"
    "\<forall>x \<in> set ops. destination x \<noteq> ?s"
    using snoc.prems(2,3,4) by simp_all
  have dd: "\<forall>x \<in> set ops. destination x \<noteq> ?d \<and> source x \<noteq> ?s \<and> destination x \<noteq> ?s"
  proof
    fix x assume x: "x \<in> set ops"
    then have "destination x \<in> destination ` set ops" "source x \<in> source ` set ops" by simp_all
    then have "destination x \<noteq> ?d" "source x \<noteq> ?s" using nm(1,2) by auto
    then show "destination x \<noteq> ?d \<and> source x \<noteq> ?s \<and> destination x \<noteq> ?s" using nm(3) x by simp
  qed
  have a1: "\<forall>x \<in> set ops. node_at u1 (destination x) = Some (F x) \<and> (\<exists>c m. F x = File c m)"
    using snoc.prems(1) dd n1 by simp
  have a2: "distinct (map destination ops)" "distinct (map source ops)" "undo_order_ok (rev ops)"
    using snoc.prems(2,3,4) by simp_all
  have a5: "\<forall>x \<in> set ops. \<not> isdir u1 (source x) \<and> isdir u1 (dirname (source x))
                        \<and> source x \<notin> set (denied u1) \<and> destination x \<notin> set (denied u1)"
  proof
    fix x assume x: "x \<in> set ops"
    have p: "\<not> isdir u (source x)" "isdir u (dirname (source x))"
      "source x \<notin> set (denied u)" "destination x \<notin> set (denied u)" using snoc.prems(5) x by auto
    have "source x \<noteq> ?s" using dd x by simp
    then have q1: "\<not> isdir u1 (source x)" using p(1) n1 by (simp add: isdir_def)
    have "dirname (source x) \<noteq> ?d" using p(2) f(2) by (auto simp: isdir_def)
    moreover have "dirname (source x) \<noteq> ?s" using p(2) side(1) by auto
    ultimately have q2: "isdir u1 (dirname (source x))" using p(2) n1 by (simp add: isdir_def)
    show "\<not> isdir u1 (source x) \<and> isdir u1 (dirname (source x))
                        \<and> source x \<notin> set (denied u1) \<and> destination x \<notin> set (denied u1)"
      using q1 q2 p(3,4) d1 by simp
  qed
  from snoc.IH [OF a1 a2 a5, of "r + 1"]
  obtain u' where ih: "undo_loop (length ops) (h0 @ ops) u1 (r + 1) = (h0, u', r + 1 + length ops)"
    and rs: "\<forall>x \<in> set ops. node_at u' (source x) = Some (F x)"
    and fr: "\<forall>q. q \<notin> source ` set ops \<and> q \<notin> destination ` set ops \<longrightarrow> node_at u' q = node_at u1 q"
    and dn: "denied u' = denied u1" by blast
  have s_out: "?s \<notin> source ` set ops \<and> ?s \<notin> destination ` set ops" using dd by auto
  then have "node_at u' ?s = node_at u1 ?s" using fr by blast
  then have r_op: "node_at u' ?s = Some (F op)" using n1 f(1) by simp
  have c1: "undo_loop (length (ops @ [op])) (h0 @ ops @ [op]) u r = (h0, u', r + length (ops @ [op]))"
    using step ih by simp
  have c2: "\<forall>x \<in> set (ops @ [op]). node_at u' (source x) = Some (F x)" using rs r_op by simp
  have c3: "\<forall>q. q \<notin> source ` set (ops @ [op]) \<and> q \<notin> destination ` set (ops @ [op])
              \<longrightarrow> node_at u' q = node_at u q"
  proof (intro allI impI)
    fix q assume q: "q \<notin> source ` set (ops @ [op]) \<and> q \<notin> destination ` set (ops @ [op])"
    then have "node_at u' q = node_at u1 q" using fr by simp
    moreover have "q \<noteq> ?s" "q \<noteq> ?d" using q by auto
    ultimately show "node_at u' q = node_at u q" using n1 by simp
  qed
  show ?case using c1 c2 c3 dn d1 by auto
qed

text \<open>A tree is well formed when the parent of every entry is a directory.\<close>

definition wf_tree :: "world \<Rightarrow> bool" where
  "wf_tree w = list_all (\<lambda>p. isdir w (dirname p)) (map fst (tree w))"

lemma wf_tree_parent: "wf_tree w \<Longrightarrow> path_exists w p \<Longrightarrow> isdir w (dirname p)"
  using path_exists_key [of w p] by (auto simp: wf_tree_def list_all_iff)

lemma sort_files_unfold:
  assumes "sort_files dump s False strat bd w = (Inr st, s1, w1)"
  shows "\<exists>wa. ensure_directories_exist s w = (None, wa)
          \<and> (((\<exists>e. listdir wa (source_dir s) = Inl e) \<and> st = zero_stats \<and> s1 = s \<and> w1 = wa)
             \<or> (\<exists>items ops wb. listdir wa (source_dir s) = Inr items
                   \<and> sort_loop s False strat bd items (zero_stats, []) wa = (Inr (st, ops), wb)
                   \<and> s1 = s\<lparr>history := history s @ ops\<rparr>
                   \<and> (w1 = wb \<or> w1 = save_history dump s1 wb)))"
proof -
  obtain r0 wa where en: "ensure_directories_exist s w = (r0, wa)"
    by (cases "ensure_directories_exist s w") auto
  have r0: "r0 = None" using assms en by (cases r0) (auto simp: sort_files_def)
  show ?thesis
  proof (cases "listdir wa (source_dir s)")
    case (Inl e)
    then have "st = zero_stats \<and> s1 = s \<and> w1 = wa" using assms en r0 by (simp add: sort_files_def)
    then show ?thesis using en r0 Inl by blast
  next
    case (Inr items)
    obtain r2 wb where lp: "sort_loop s False strat bd items (zero_stats, []) wa = (r2, wb)"
      by (cases "sort_loop s False strat bd items (zero_stats, []) wa") auto
    show ?thesis
    proof (cases r2)
      case (Inl e)
      then show ?thesis using assms en r0 Inr lp by (simp add: sort_files_def)
    next
      case acc: (Inr acc)
      obtain st' ops where a: "acc = (st', ops)" by (cases acc) auto
      have "st' = st \<and> s1 = s\<lparr>history := history s @ ops\<rparr> \<and> (w1 = wb \<or> w1 = save_history dump s1 wb)"
        using assms en r0 Inr lp acc a by (cases "ops = []") (auto simp: sort_files_def)
      then show ?thesis using en r0 Inr lp acc a by blast
    qed
  qed
qed

lemma undo_last_operation_unfold:
  assumes "undo_loop (length ops) (h0 @ ops) u 0 = (h0, u', length ops)"
    and "history s1 = h0 @ ops"
    and "undo_last_operation dump s1 (int (length ops)) u = (restored, s2, w2)"
  shows "restored = length ops \<and> s2 = s1\<lparr>history := h0\<rparr> \<and> w2 = save_history dump s2 u'"
proof -
  have "nat (min (int (length ops)) (int (length (history s1)))) = length ops"
    using assms(2) by simp
  then show ?thesis using assms by (auto simp: undo_last_operation_def)
qed

text \<open>
  Claim C1, amended. Take a real pass (no dry run) under one of the three documented
  policies that returns statistics without an error, on a tree in which every entry lies
  in a directory, as in every file system. Suppose that after the pass no directory
  stands at the original path of a moved file, and that the history file is not one of
  the recorded destinations. Then the pass appended exactly \<open>moved\<close> records, and undoing
  \<open>moved\<close> operations restores that many files, gives the log its content from before the
  pass, so that its length decreases by \<open>moved\<close>, and leaves at the original path of every
  moved file the file that was there before the pass, with its content and time stamp.
\<close>

theorem C1_round_trip:
  assumes pass: "sort_files dump s False duplicate_strategy organize_by_date w = (Inr st, s1, w1)"
    and docs: "duplicate_strategy \<in> {''skip'', ''rename'', ''replace''}"
    and noerr: "errors st = 0"
    and wf: "wf_tree w"
    and nodir: "\<forall>op \<in> set (drop (length (history s)) (history s1)). \<not> isdir w1 (source op)"
    and hist: "history_file s \<notin> destination ` set (drop (length (history s)) (history s1))"
    and undo: "undo_last_operation dump s1 (int (moved st)) w1 = (restored, s2, w2)"
  shows "length (history s1) = length (history s) + moved st
     \<and> history s2 = history s
     \<and> length (history s2) = length (history s1) - moved st
     \<and> restored = moved st
     \<and> (\<forall>op \<in> set (drop (length (history s)) (history s1)).
           (\<exists>c m. node_at w (source op) = Some (File c m))
           \<and> node_at w2 (source op) = node_at w (source op))"
proof -
  let ?src = "source_dir s"
  from sort_files_unfold [OF pass] obtain wa where en: "ensure_directories_exist s w = (None, wa)"
    and alt: "((\<exists>e. listdir wa ?src = Inl e) \<and> st = zero_stats \<and> s1 = s \<and> w1 = wa)
             \<or> (\<exists>items ops wb. listdir wa ?src = Inr items
                   \<and> sort_loop s False duplicate_strategy organize_by_date items (zero_stats, []) wa = (Inr (st, ops), wb)
                   \<and> s1 = s\<lparr>history := history s @ ops\<rparr>
                   \<and> (w1 = wb \<or> w1 = save_history dump s1 wb))" by blast
  from alt show ?thesis
  proof
    assume "(\<exists>e. listdir wa ?src = Inl e) \<and> st = zero_stats \<and> s1 = s \<and> w1 = wa"
    then have z: "moved st = 0" "s1 = s" by (simp_all add: zero_stats_def)
    then have "restored = 0 \<and> history s2 = history s"
      using undo by (auto simp: undo_last_operation_def)
    then show ?thesis using z by simp
  next
    assume "\<exists>items ops wb. listdir wa ?src = Inr items
                   \<and> sort_loop s False duplicate_strategy organize_by_date items (zero_stats, []) wa = (Inr (st, ops), wb)
                   \<and> s1 = s\<lparr>history := history s @ ops\<rparr>
                   \<and> (w1 = wb \<or> w1 = save_history dump s1 wb)"
    then obtain items ops wb where ls: "listdir wa ?src = Inr items"
      and lp: "sort_loop s False duplicate_strategy organize_by_date items (zero_stats, []) wa = (Inr (st, ops), wb)"
      and s1: "s1 = s\<lparr>history := history s @ ops\<rparr>"
      and w1: "w1 = wb \<or> w1 = save_history dump s1 wb" by blast
    have newops: "drop (length (history s)) (history s1) = ops" using s1 by simp
    note li = listdir_items [OF ls]
    have e0: "errors st = errors zero_stats" using noerr by (simp add: zero_stats_def)
    from sort_loop_inv [OF lp e0 docs _ _ pass_inv_start] li
    have inv: "pass_inv s duplicate_strategy wa wb ops []"
      and mv: "moved st = length ops" by (auto simp: zero_stats_def)
    have j0: "denied wb = denied wa" using inv by (simp add: pass_inv_def)
    have j2: "\<forall>op \<in> set ops. node_at wb (destination op) = node_at wa (source op)
                          \<and> (\<exists>c m. node_at wa (source op) = Some (File c m))"
      using inv by (simp add: pass_inv_def)
    have j3: "distinct (map destination ops)" "distinct (map source ops)" "undo_order_ok (rev ops)"
      using inv by (simp_all add: pass_inv_def)
    have j9: "\<forall>op \<in> set ops. source op \<noteq> history_file s \<and> source op \<notin> set (denied wa)
                          \<and> destination op \<notin> set (denied wa)"
      using inv by (simp add: pass_inv_def)
    have j8: "\<forall>p. isdir wa p \<longrightarrow> isdir wb p" using inv by (simp add: pass_inv_def)
    \<comment> \<open>the world after the pass differs from the one after the loop at the history file only\<close>
    have hf1: "history_file s1 = history_file s" using s1 by simp
    have sv: "node_at w1 q = node_at wb q
              \<or> (q = history_file s \<and> \<not> isdir wb q \<and> (\<exists>c m. node_at w1 q = Some (File c m)))" for q
      using w1 save_history_effect [of dump s1 wb q] hf1 by auto
    have dw1: "denied w1 = denied wa" using w1 j0 save_history_denied [of dump s1 wb] by auto
    let ?F = "\<lambda>op. the (node_at wa (source op))"
    have orig: "node_at w (source op) = node_at wa (source op)" if "op \<in> set ops" for op
    proof -
      from j2 that obtain c m where "node_at wa (source op) = Some (File c m)" by blast
      then show ?thesis
        using only_adds_dirs_files [OF ensure_directories_adds [OF en], of "source op" c m] by simp
    qed
    have a1: "\<forall>op \<in> set ops. node_at w1 (destination op) = Some (?F op) \<and> (\<exists>c m. ?F op = File c m)"
    proof
      fix op assume o: "op \<in> set ops"
      have "destination op \<noteq> history_file s"
      proof
        assume "destination op = history_file s"
        then have "history_file s \<in> destination ` set ops" using o by (metis imageI)
        then show False using hist newops by simp
      qed
      then have "node_at w1 (destination op) = node_at wb (destination op)" using sv by metis
      then show "node_at w1 (destination op) = Some (?F op) \<and> (\<exists>c m. ?F op = File c m)"
        using j2 o by auto
    qed
    have a5: "\<forall>op \<in> set ops. \<not> isdir w1 (source op) \<and> isdir w1 (dirname (source op))
                        \<and> source op \<notin> set (denied w1) \<and> destination op \<notin> set (denied w1)"
    proof
      fix op assume o: "op \<in> set ops"
      have q1: "\<not> isdir w1 (source op)" using nodir newops o by simp
      obtain c m where "node_at wa (source op) = Some (File c m)" using j2 o by blast
      then have "path_exists w (source op)" using orig [OF o] by (simp add: path_exists_def)
      then have "isdir w (dirname (source op))" using wf by (rule wf_tree_parent [rotated])
      then have "isdir wa (dirname (source op))"
        using only_adds_dirs_keeps [OF ensure_directories_adds [OF en]] by (simp add: isdir_def)
      then have db: "isdir wb (dirname (source op))" using j8 by simp
      have q2: "isdir w1 (dirname (source op))"
        using sv [of "dirname (source op)"] db by (auto simp: isdir_def)
      show "\<not> isdir w1 (source op) \<and> isdir w1 (dirname (source op))
                        \<and> source op \<notin> set (denied w1) \<and> destination op \<notin> set (denied w1)"
        using q1 q2 j9 o dw1 by simp
    qed
    from undo_restores [OF a1 j3 a5, of "history s" 0]
    obtain u' where ul: "undo_loop (length ops) (history s @ ops) w1 0 = (history s, u', length ops)"
      and rs: "\<forall>op \<in> set ops. node_at u' (source op) = Some (?F op)" by auto
    have hs1: "history s1 = history s @ ops" using s1 by simp
    from undo_last_operation_unfold [OF ul hs1] undo mv
    have res: "restored = length ops" "s2 = s1\<lparr>history := history s\<rparr>" "w2 = save_history dump s2 u'"
      by simp_all
    have restored_at: "(\<exists>c m. node_at w (source op) = Some (File c m))
           \<and> node_at w2 (source op) = node_at w (source op)" if o: "op \<in> set ops" for op
    proof -
      obtain c m where f: "node_at wa (source op) = Some (File c m)" using j2 o by blast
      have "history_file s2 = history_file s" using res(2) s1 by simp
      moreover have "source op \<noteq> history_file s" using j9 o by simp
      ultimately have "node_at w2 (source op) = node_at u' (source op)"
        using save_history_effect [of dump s2 u' "source op"] res(3) by auto
      then have "node_at w2 (source op) = node_at wa (source op)" using rs o f by simp
      then show ?thesis using orig [OF o] f by simp
    qed
    have "length (history s1) = length (history s) + moved st" using hs1 mv by simp
    moreover have "history s2 = history s" using res(2) by simp
    moreover have "length (history s2) = length (history s1) - moved st" using res(2) hs1 mv by simp
    moreover have "restored = moved st" using res(1) mv by simp
    ultimately show ?thesis using restored_at newops by simp
  qed
qed

text \<open>
  Witness for C1: a pass under policy \<open>rename\<close> moves \<open>a.mp4\<close> to \<open>Videos/a_1.mp4\<close> and
  \<open>notes.txt\<close> to \<open>Documents/notes.txt\<close> and leaves \<open>readme\<close>; undoing two operations
  puts both files back and leaves the older record as the whole history.
\<close>

theorem C1_witness:
  "sort_files toy_dump sT False ''rename'' False wT
     = (Inr \<lparr>moved = 2, skipped = 1, errors = 0\<rparr>, sT_sorted, wT_sorted)
   \<and> wf_tree wT
   \<and> map source (drop (length (history sT)) (history sT_sorted)) = [''/src/a.mp4'', ''/src/notes.txt'']
   \<and> map destination (drop (length (history sT)) (history sT_sorted))
       = [''/src/Videos/a_1.mp4'', ''/src/Documents/notes.txt'']
   \<and> list_all (\<lambda>x. \<not> isdir wT_sorted (source x)) (drop (length (history sT)) (history sT_sorted))
   \<and> undo_last_operation toy_dump sT_sorted 2 wT_sorted = (2, sT, wT_undone)
   \<and> length (history sT_sorted) = length (history sT) + 2
   \<and> history sT = take 1 (history sT_sorted)
   \<and> node_at wT ''/src/a.mp4'' = Some (File ''A'' (2024, 3))
   \<and> node_at wT_undone ''/src/a.mp4'' = node_at wT ''/src/a.mp4''
   \<and> node_at wT_undone ''/src/notes.txt'' = node_at wT ''/src/notes.txt''"
proof -
  let ?st = "\<lparr>moved = 2, skipped = 1, errors = 0\<rparr>"
  let ?ops = "drop (length (history sT)) (history sT_sorted)"
  have pass: "sort_files toy_dump sT False ''rename'' False wT = (Inr ?st, sT_sorted, wT_sorted)"
    by code_simp
  have docs: "''rename'' \<in> {''skip'', ''rename'', ''replace''}" by simp
  have noerr: "errors ?st = 0" by simp
  have wf: "wf_tree wT" by code_simp
  have srcs: "map source ?ops = [''/src/a.mp4'', ''/src/notes.txt'']" by code_simp
  have dsts: "map destination ?ops = [''/src/Videos/a_1.mp4'', ''/src/Documents/notes.txt'']"
    by code_simp
  have nd: "list_all (\<lambda>x. \<not> isdir wT_sorted (source x)) ?ops" by code_simp
  then have nodir: "\<forall>x \<in> set ?ops. \<not> isdir wT_sorted (source x)" by (simp only: list_all_iff)
  have "history_file sT \<notin> set (map destination ?ops)" by code_simp
  then have hist: "history_file sT \<notin> destination ` set ?ops" by (simp only: set_map simp_thms)
  have undo2: "undo_last_operation toy_dump sT_sorted 2 wT_sorted = (2, sT, wT_undone)"
    by code_simp
  have "int (moved ?st) = 2" by simp
  with undo2 have undo: "undo_last_operation toy_dump sT_sorted (int (moved ?st)) wT_sorted = (2, sT, wT_undone)"
    by (simp only:)
  have tk: "history sT = take 1 (history sT_sorted)" by code_simp
  have fa: "node_at wT ''/src/a.mp4'' = Some (File ''A'' (2024, 3))" by code_simp
  have m1: "''/src/a.mp4'' \<in> set (map source ?ops)" "''/src/notes.txt'' \<in> set (map source ?ops)"
    by (simp_all only: srcs list.set insert_iff simp_thms)
  note rt = C1_round_trip [OF pass docs noerr wf nodir hist undo]
  note len = rt [THEN conjunct1]
  from len have len2: "length (history sT_sorted) = length (history sT) + 2" by simp
  note rest = rt [THEN conjunct2, THEN conjunct2, THEN conjunct2, THEN conjunct2]
  have r: "node_at wT_undone p = node_at wT p" if "p \<in> set (map source ?ops)" for p
  proof -
    from that have "p \<in> source ` set ?ops" by (simp only: set_map)
    then obtain x where x: "x \<in> set ?ops" "p = source x" by (rule imageE)
    from rest x(1) have "(\<exists>c m. node_at wT (source x) = Some (File c m))
        \<and> node_at wT_undone (source x) = node_at wT (source x)" by (rule bspec)
    then have "node_at wT_undone (source x) = node_at wT (source x)" by (rule conjunct2)
    with x(2) show ?thesis by (simp only:)
  qed
  note r1 = r [OF m1(1)] and r2 = r [OF m1(2)]
  show ?thesis
    by (intro conjI pass wf srcs dsts nd undo2 len2 tk fa r1 r2)
qed

text \<open>
  Counterexamples to C1 as stated. In the first, category \<open>a.mp4\<close> takes the text files:
  once \<open>/src/a.mp4\<close> has been moved to \<open>Videos\<close>, moving \<open>b.txt\<close> creates the directory
  \<open>/src/a.mp4\<close>, and the undo then moves the video into that directory, to
  \<open>/src/a.mp4/a.mp4\<close>, while counting it as restored. In the second, the history file is the
  path that policy \<open>rename\<close> picks for the video: saving the history overwrites the moved
  file, and the undo puts the history text at the original path. In both passes every
  move succeeded.
\<close>

theorem C1_counterexample:
  "sort_files toy_dump sX False ''rename'' False wX
     = (Inr \<lparr>moved = 2, skipped = 0, errors = 0\<rparr>, sX_sorted, wX_sorted)
   \<and> map source (history sX_sorted) = [''/src/a.mp4'', ''/src/b.txt'']
   \<and> history sX = []
   \<and> undo_last_operation toy_dump sX_sorted 2 wX_sorted = (2, sX, wX_undone)
   \<and> node_at wX ''/src/a.mp4'' = Some (File ''A'' (2024, 3))
   \<and> node_at wX_undone ''/src/a.mp4'' = Some Dir
   \<and> node_at wX_undone ''/src/a.mp4/a.mp4'' = Some (File ''A'' (2024, 3))
   \<and> sort_files toy_dump sJ False ''rename'' False wJ
     = (Inr \<lparr>moved = 1, skipped = 0, errors = 0\<rparr>, sJ_sorted, wJ_sorted)
   \<and> map source (history sJ_sorted) = [''/src/a.mp4'']
   \<and> undo_last_operation toy_dump sJ_sorted 1 wJ_sorted = (1, sJ, wJ_undone)
   \<and> node_at wJ ''/src/a.mp4'' = Some (File ''A'' (2024, 3))
   \<and> node_at wJ_undone ''/src/a.mp4'' = Some (File ''/src/a.mp4>/src/Videos/a_1.mp4;'' (2026, 1))"
proof -
  have a: "sort_files toy_dump sX False ''rename'' False wX
     = (Inr \<lparr>moved = 2, skipped = 0, errors = 0\<rparr>, sX_sorted, wX_sorted)"
    by code_simp
  have b: "map source (history sX_sorted) = [''/src/a.mp4'', ''/src/b.txt'']" by code_simp
  have c: "history sX = []" by (simp add: sX_def)
  have d: "undo_last_operation toy_dump sX_sorted 2 wX_sorted = (2, sX, wX_undone)" by code_simp
  have e: "node_at wX ''/src/a.mp4'' = Some (File ''A'' (2024, 3))" by code_simp
  have f: "node_at wX_undone ''/src/a.mp4'' = Some Dir" by code_simp
  have g: "node_at wX_undone ''/src/a.mp4/a.mp4'' = Some (File ''A'' (2024, 3))" by code_simp
  have h: "sort_files toy_dump sJ False ''rename'' False wJ
     = (Inr \<lparr>moved = 1, skipped = 0, errors = 0\<rparr>, sJ_sorted, wJ_sorted)"
    by code_simp
  have i: "map source (history sJ_sorted) = [''/src/a.mp4'']" by code_simp
  have j: "undo_last_operation toy_dump sJ_sorted 1 wJ_sorted = (1, sJ, wJ_undone)" by code_simp
  have k: "node_at wJ ''/src/a.mp4'' = Some (File ''A'' (2024, 3))" by code_simp
  have l: "node_at wJ_undone ''/src/a.mp4'' = Some (File ''/src/a.mp4>/src/Videos/a_1.mp4;'' (2026, 1))"
    by code_simp
  show ?thesis by (intro conjI a b c d e f g h i j k l)
qed

end
